theory Spec2Isabelle
  imports Complex_Main "HOL-Library.Sublist"
begin

section \<open>Strings and numbers of the program\<close>

text \<open>
  A JavaScript string is a sequence of UTF-16 code units: \<open>.length\<close> is \<open>length\<close>,
  \<open>+\<close> on strings is \<open>@\<close>, \<open>join('')\<close> is \<open>concat\<close> and \<open>s.endsWith(t)\<close> is
  \<open>suffix t s\<close>. The program only joins, compares and counts the code units of the
  texts it reads and speaks (the words, the delimiter, the fragments, the chunks), so
  their type is a parameter \<open>'u\<close>. Paths and object names, where the program looks for
  digits, slashes and dashes, are \<open>string\<close>; a character stands for a code unit.
  Array indices and counters are natural numbers.
\<close>

type_synonym 'u jstring = "'u list"

fun decimal :: "nat \<Rightarrow> string" where
  "decimal n =
     (if n < 10 then [''0123456789'' ! n]
      else decimal (n div 10) @ [''0123456789'' ! (n mod 10)])"

declare decimal.simps [simp del]

text \<open>
  JavaScript numbers. A number is an IEEE 754 double: \<open>NaN\<close>, an infinity, or a finite
  value, which is a rational number. \<open>Fin r\<close> is the double whose value is \<open>r\<close>
  (every rational is admitted, and the doubles are among them); the two zeros compare
  alike and are one value here. A coordinate that the JSON document
  leaves out is \<open>undefined\<close>, which \<open>Math.max\<close>, \<open>Math.min\<close> and \<open><\<close> all turn into
  \<open>NaN\<close>: it is read as \<open>NaN\<close>.
\<close>

datatype jsnum = NaN | NegInf | is_Fin: Fin (the_Fin: rat) | PosInf

text \<open>\<open>a < b\<close> on numbers: false whenever one side is \<open>NaN\<close>.\<close>

fun js_less :: "jsnum \<Rightarrow> jsnum \<Rightarrow> bool" where
  "js_less (Fin a) (Fin b) = (a < b)"
| "js_less NegInf (Fin b) = True"
| "js_less NegInf PosInf = True"
| "js_less (Fin a) PosInf = True"
| "js_less a b = False"

text \<open>
  Rounding a real result to a double (round to nearest, ties to even), as every
  arithmetic operation of JavaScript does. A double has 53 significant bits; its
  exponent \<open>e\<close> lies between \<open>-1022\<close> and \<open>1023\<close>, and the doubles of exponent \<open>e\<close> are
  the multiples of \<open>2^(e-52)\<close>. Below \<open>2^(-1022)\<close> the spacing stays \<open>2^(-1074)\<close>
  (subnormal numbers); a result that rounds to \<open>2^1024\<close> or beyond is an infinity.
\<close>

definition round_half_even :: "rat \<Rightarrow> int" where
  "round_half_even x =
     (let f = \<lfloor>x\<rfloor>; d = x - of_int f
      in if d < 1 / 2 then f
         else if 1 / 2 < d then f + 1
         else if even f then f else f + 1)"

text \<open>
  The exponent of a positive value: the greatest \<open>e\<close> from \<open>1023\<close> down to \<open>-1021\<close>
  with \<open>2^e \<le> x\<close>, and \<open>-1022\<close> when there is none.
\<close>

primrec find_exponent :: "nat \<Rightarrow> rat \<Rightarrow> int" where
  "find_exponent 0 x = - 1022"
| "find_exponent (Suc k) x =
     (if 2 powi (int (Suc k) - 1022) \<le> x then int (Suc k) - 1022 else find_exponent k x)"

definition double_exponent :: "rat \<Rightarrow> int" where
  "double_exponent x = find_exponent 2045 x"

definition round_double :: "rat \<Rightarrow> jsnum" where
  "round_double x =
     (if x = 0 then Fin 0
      else
        (let e = double_exponent \<bar>x\<bar>;
             q = 2 powi (e - 52);
             r = of_int (round_half_even (x / q)) * q
         in if 2 ^ 1024 \<le> \<bar>r\<bar> then (if 0 < x then PosInf else NegInf) else Fin r))"

text \<open>The literal \<open>0.9\<close> is the double nearest to nine tenths.\<close>

definition double_0_9 :: rat where
  "double_0_9 = 8106479329266893 / 9007199254740992"

text \<open>
  \<open>v * 0.9\<close>: the exact product rounded to a double; \<open>NaN\<close> stays \<open>NaN\<close> and an
  infinity times a positive number is the same infinity.
\<close>

fun times_0_9 :: "jsnum \<Rightarrow> jsnum" where
  "times_0_9 NaN = NaN"
| "times_0_9 NegInf = NegInf"
| "times_0_9 (Fin a) = round_double (a * double_0_9)"
| "times_0_9 PosInf = PosInf"

text \<open>
  \<open>Math.max(...ys)\<close> and \<open>Math.min(...ys)\<close>: \<open>-Infinity\<close> and \<open>Infinity\<close> for no
  argument, \<open>NaN\<close> as soon as one argument is \<open>NaN\<close>.
\<close>

definition js_max2 :: "jsnum \<Rightarrow> jsnum \<Rightarrow> jsnum" where
  "js_max2 highest y =
     (if highest = NaN \<or> y = NaN then NaN else if js_less highest y then y else highest)"

definition js_min2 :: "jsnum \<Rightarrow> jsnum \<Rightarrow> jsnum" where
  "js_min2 lowest y =
     (if lowest = NaN \<or> y = NaN then NaN else if js_less y lowest then y else lowest)"

definition Math_max :: "jsnum list \<Rightarrow> jsnum" where
  "Math_max ys = foldl js_max2 NegInf ys"

definition Math_min :: "jsnum list \<Rightarrow> jsnum" where
  "Math_min ys = foldl js_min2 PosInf ys"

text \<open>
  \<open>String.prototype.split\<close> with a string separator and no limit (ECMAScript): an
  empty separator splits into the single code units; otherwise the string is cut at the
  successive leftmost occurrences of the separator, and the pieces between them are
  returned, the empty ones included.
\<close>

function split_from :: "'u jstring \<Rightarrow> 'u jstring \<Rightarrow> 'u jstring \<Rightarrow> 'u jstring list" where
  "split_from sep piece [] = [piece]"
| "split_from sep piece (c # cs) =
     (if sep \<noteq> [] \<and> prefix sep (c # cs)
      then piece # split_from sep [] (drop (length sep) (c # cs))
      else split_from sep (piece @ [c]) cs)"
  by pat_completeness auto
termination
  by (relation "measure (\<lambda>(sep, piece, rest). length rest)") auto

definition split :: "'u jstring \<Rightarrow> 'u jstring \<Rightarrow> 'u jstring list" where
  "split s sep = (if sep = [] then map (\<lambda>c. [c]) s else split_from sep [] s)"

section \<open>The OCR result (the JSON document of one shard)\<close>

text \<open>
  \<open>{ responses: [ { fullTextAnnotation?: { pages: [ { blocks: [ { paragraphs: [ { words:
  [ { boundingBox: { normalizedVertices: [{x, y}] }, symbols: [{text}] } ] } ] } ] } ] } } ] }\<close>.
  The field names carry the name of their object, since a field is a constant here.
  A coordinate is a number; in a vertex that has no \<open>y\<close> key, \<open>p.y\<close> is \<open>undefined\<close>,
  and the field is \<open>NaN\<close>.
\<close>

record NormalizedVertex =
  vertex_x :: jsnum
  vertex_y :: jsnum

record BoundingPoly =
  poly_normalizedVertices :: "NormalizedVertex list"

record 'u Symbol =
  symbol_text :: "'u jstring"

record 'u Word =
  word_boundingBox :: BoundingPoly
  word_symbols :: "'u Symbol list"

record 'u Paragraph =
  paragraph_words :: "'u Word list"

record 'u Block =
  block_paragraphs :: "'u Paragraph list"

record 'u Page =
  page_blocks :: "'u Block list"

record 'u TextAnnotation =
  annotation_pages :: "'u Page list"

record 'u Response =
  response_fullTextAnnotation :: "'u TextAnnotation option"

record 'u Root =
  root_responses :: "'u Response list"

text \<open>\<open>WordLevelText\<close>: what \<open>splitSentences\<close> keeps of a word.\<close>

record 'u WordLevelText =
  wlt_boundingBox :: BoundingPoly
  wlt_text :: "'u jstring"

section \<open>TextToSpeechTask: sentences (src/ts/TextToSpeechTask.ts)\<close>

text \<open>
  The first half of \<open>splitSentences\<close>: the nested \<open>forEach\<close> that gathers, for every
  page of every response that has a \<open>fullTextAnnotation\<close>, the words of the page in the
  order of the document, each with its box and the joined text of its symbols.
\<close>

definition collectPages :: "'u Root \<Rightarrow> 'u WordLevelText list list" where
  "collectPages result =
     concat (map (\<lambda>a.
       case response_fullTextAnnotation a of
         None \<Rightarrow> []
       | Some fta \<Rightarrow>
           map (\<lambda>b.
             concat (map (\<lambda>c.
               concat (map (\<lambda>d.
                 map (\<lambda>e. \<lparr>wlt_boundingBox = word_boundingBox e,
                            wlt_text = concat (map symbol_text (word_symbols e))\<rparr>)
                   (paragraph_words d))
                 (block_paragraphs c)))
               (page_blocks b)))
             (annotation_pages fta))
       (root_responses result))"

text \<open>\<open>w.boundingBox.normalizedVertices.map(p => p.y)\<close>\<close>

definition ys_of :: "'u WordLevelText \<Rightarrow> jsnum list" where
  "ys_of w = map vertex_y (poly_normalizedVertices (wlt_boundingBox w))"

text \<open>
  The test of line 125:
  \<open>currentYs.every(y => y < ymax * 0.9) && Math.min(...nextYs) < Math.max(...currentYs)\<close>
\<close>

definition boundary :: "jsnum \<Rightarrow> jsnum list \<Rightarrow> jsnum list \<Rightarrow> bool" where
  "boundary ymax currentYs nextYs =
     (list_all (\<lambda>y. js_less y (times_0_9 ymax)) currentYs
      \<and> js_less (Math_min nextYs) (Math_max currentYs))"

text \<open>
  The body of \<open>pages.forEach\<close>: what one page pushes to \<open>texts\<close>. The \<open>for\<close> loop
  visits every index, and pushes only under \<open>if (i < words.length-1)\<close>; that
  \<open>if\<close> has no \<open>else\<close>.
\<close>

definition pageTexts :: "'u jstring \<Rightarrow> 'u WordLevelText list \<Rightarrow> 'u jstring list" where
  "pageTexts delimiter words =
     (let ymax = Math_max (concat (map ys_of words)) in
      concat (map (\<lambda>i.
        let text = wlt_text (words ! i) in
        if i < length words - 1 then
          (let currentYs = ys_of (words ! i);
               nextYs = ys_of (words ! (i + 1))
           in [if boundary ymax currentYs nextYs then text @ delimiter else text])
        else [])
        [0..<length words]))"


definition splitSentences :: "'u jstring \<Rightarrow> 'u Root \<Rightarrow> 'u jstring list" where
  "splitSentences delimiter result =
     (let pages = collectPages result;
          texts = concat (map (pageTexts delimiter) pages)
      in map (\<lambda>x. if suffix delimiter x then x else x @ delimiter)
           (filter (\<lambda>x. x \<noteq> []) (split (concat texts) delimiter)))"

section \<open>TextToSpeechTask: chunking (src/ts/TextToSpeechTask.ts)\<close>

definition maxLength :: nat where
  "maxLength = 5000"

text \<open>
  \<open>takeChunk(texts, index)\<close>: the \<open>for\<close> loop over \<open>i\<close> with the accumulator
  \<open>text\<close>. It returns as soon as appending \<open>texts[i]\<close> would exceed \<open>maxLength\<close>,
  with the text gathered so far and the index \<open>i\<close> itself.
\<close>

function takeChunk_loop :: "'u jstring list \<Rightarrow> 'u jstring \<Rightarrow> nat \<Rightarrow> 'u jstring \<times> nat" where
  "takeChunk_loop texts text i =
     (if i < length texts then
        (let t = texts ! i in
         if length (text @ t) > maxLength then (text, i)
         else takeChunk_loop texts (text @ t) (i + 1))
      else (text, length texts))"
  by pat_completeness auto
termination
  by (relation "measure (\<lambda>(texts, text, i). length texts - i)") auto

declare takeChunk_loop.simps [simp del]

definition takeChunk :: "'u jstring list \<Rightarrow> nat \<Rightarrow> 'u jstring \<times> nat" where
  "takeChunk texts index = takeChunk_loop texts [] index"

text \<open>
  \<open>getOutputPath(prefix, num)\<close>: the number padded with zeros to three digits.
\<close>

definition getOutputPath :: "string \<Rightarrow> nat \<Rightarrow> string" where
  "getOutputPath pfx num =
     (let suffixString =
        (if num < 10 then ''00'' else (if num < 100 then ''0'' else '''')) @ decimal num
      in pfx @ ''/output-'' @ suffixString @ ''.mp3'')"

text \<open>
  The \<open>while (i < texts.length)\<close> loop of \<open>run\<close>. Each round takes a chunk at \<open>i\<close>,
  numbers it, queues the job (the chunk text and its output path) and continues at the
  index \<open>takeChunk\<close> returned. Nothing in the loop bounds the number of rounds, so the
  loop is a partial function: \<open>None\<close> means that it never ends.
\<close>

partial_function (option) run_loop ::
  "'u jstring list \<Rightarrow> string \<Rightarrow> nat \<Rightarrow> nat \<Rightarrow> ('u jstring \<times> string) list
     \<Rightarrow> ('u jstring \<times> string) list option" where
  "run_loop texts outputPrefix num i promises =
     (if i < length texts then
        run_loop texts outputPrefix (num + 1) (snd (takeChunk texts i))
          (promises @ [(fst (takeChunk texts i), getOutputPath outputPrefix (num + 1))])
      else Some promises)"

section \<open>TextToSpeechTask: jobs and run (src/ts/TextToSpeechTask.ts)\<close>

text \<open>
  A promise settles with a value or rejects with a reason. The program rejects with
  strings of its own (\<open>Reason\<close>); a failure of a provider call (storage, OCR, speech)
  is an opaque error of that provider.
\<close>

datatype error = Reason string | ProviderError string | TypeError

text \<open>
  \<open>Promise.all\<close>: the values in the order of the inputs when every input resolves. It
  rejects as soon as one input rejects, with that input's reason; which input is the
  first in time is not part of this model, which takes the first in the order of the
  list.
\<close>

definition Promise_all :: "(error + 'a) list \<Rightarrow> error + 'a list" where
  "Promise_all rs =
     (case [e. Inl e \<leftarrow> rs] of
        [] \<Rightarrow> Inr [v. Inr v \<leftarrow> rs]
      | e # es \<Rightarrow> Inl e)"

text \<open>
  What the program sees of the outside world during \<open>TextToSpeechTask.run\<close>:
  the listing of a prefix, the OCR document stored at a path (\<open>readGcsFileString\<close>
  followed by \<open>JSON.parse\<close>), and whether the \<open>n\<close>-th call of \<open>ttsRequest\<close> for a
  text and an output path fails (\<open>None\<close>: it resolves with the output path).
\<close>

record 'u TtsWorld =
  gcs_listFiles :: "string \<Rightarrow> error + string list"
  gcs_readOcrJson :: "string \<Rightarrow> error + 'u Root"
  ttsRequest_fails :: "'u jstring \<Rightarrow> string \<Rightarrow> nat \<Rightarrow> error option"

text \<open>
  \<open>readOcrOuputJson(gcsPath)\<close>: the fragments of one shard
  (\<open>sentencesList.flat()\<close> of a list of strings is that list).
\<close>

definition readOcrOuputJson ::
  "'u TtsWorld \<Rightarrow> 'u jstring \<Rightarrow> string \<Rightarrow> error + 'u jstring list" where
  "readOcrOuputJson world delimiter gcsPath =
     (case gcs_readOcrJson world gcsPath of
        Inl e \<Rightarrow> Inl e
      | Inr obj \<Rightarrow> Inr (splitSentences delimiter obj))"

text \<open>
  The function handed to \<open>promiseRetry\<close>, one attempt: what the returned promise does
  (resolve, reject, or reject through \<open>retry\<close>) and the number of calls of
  \<open>ttsRequest\<close> the attempt made.
\<close>

datatype 'a attempt = Resolve 'a | Reject error | Retry error

definition ttsAttempt ::
  "'u TtsWorld \<Rightarrow> 'u jstring \<Rightarrow> string \<Rightarrow> nat \<Rightarrow> string attempt \<times> nat" where
  "ttsAttempt world chunk outputPath count =
     (if count > 5 then
        (Reject (Reason (''gave up after '' @ decimal (count - 1) @ '' retry'')), 0)
      else
        (case ttsRequest_fails world chunk outputPath count of
           None \<Rightarrow> (Resolve outputPath, 1)
         | Some e \<Rightarrow> (Retry e, 1)))"

text \<open>
  \<open>promiseRetry(fn)\<close> of the npm package promise-retry, which is not part of the
  repository; modelled from its documentation. \<open>fn\<close> is called with the number of the
  attempt, starting at 1. A promise that rejects through \<open>retry\<close> makes the library call
  \<open>fn\<close> again with the next number, unless its own retries (10 without options) are
  used up, and then it rejects with the error; every other outcome is final. The waiting
  time between two attempts is not modelled. The second component adds up the calls of
  \<open>ttsRequest\<close>.
\<close>

fun promiseRetry_from :: "nat \<Rightarrow> (nat \<Rightarrow> 'a attempt \<times> nat) \<Rightarrow> nat \<Rightarrow> (error + 'a) \<times> nat" where
  "promiseRetry_from 0 fn number =
     (case fn number of
        (Resolve v, c) \<Rightarrow> (Inr v, c)
      | (Reject e, c) \<Rightarrow> (Inl e, c)
      | (Retry e, c) \<Rightarrow> (Inl e, c))"
| "promiseRetry_from (Suc retries) fn number =
     (case fn number of
        (Resolve v, c) \<Rightarrow> (Inr v, c)
      | (Reject e, c) \<Rightarrow> (Inl e, c)
      | (Retry e, c) \<Rightarrow>
          (case promiseRetry_from retries fn (number + 1) of (res, c') \<Rightarrow> (res, c + c')))"

definition promiseRetry :: "(nat \<Rightarrow> 'a attempt \<times> nat) \<Rightarrow> (error + 'a) \<times> nat" where
  "promiseRetry fn = promiseRetry_from 10 fn 1"

text \<open>
  The job that \<open>run\<close> hands to the limiter for one chunk: skip when a listed file ends
  with the output path, else the retried request. The limiter (\<open>p-limit\<close>, 8 at a time)
  runs every queued job; it changes when a job runs, not what it does.
\<close>

definition ttsJob ::
  "'u TtsWorld \<Rightarrow> string list \<Rightarrow> 'u jstring \<Rightarrow> string \<Rightarrow> (error + string) \<times> nat" where
  "ttsJob world existFiles chunk outputPath =
     (if list_ex (\<lambda>f. suffix outputPath f) existFiles then (Inr outputPath, 0)
      else promiseRetry (ttsAttempt world chunk outputPath))"

text \<open>
  \<open>TextToSpeechTask.run(gcsPaths, outputPrefix)\<close> for a task built with \<open>delimiter\<close>.
  \<open>None\<close>: the loop never ends, and no job ever runs. Otherwise the settlement of the
  returned promise and, for every job in order, the number of calls of \<open>ttsRequest\<close>.
\<close>

definition TextToSpeechTask_run ::
  "'u TtsWorld \<Rightarrow> 'u jstring \<Rightarrow> string list \<Rightarrow> string
     \<Rightarrow> ((error + string list) \<times> nat list) option" where
  "TextToSpeechTask_run world delimiter gcsPaths outputPrefix =
     (case gcs_listFiles world outputPrefix of
        Inl e \<Rightarrow> Some (Inl e, [])
      | Inr existFiles \<Rightarrow>
          (case Promise_all (map (readOcrOuputJson world delimiter) gcsPaths) of
             Inl e \<Rightarrow> Some (Inl e, [])
           | Inr textsList \<Rightarrow>
               (case run_loop (concat textsList) outputPrefix 0 0 [] of
                  None \<Rightarrow> None
                | Some promises \<Rightarrow>
                    Some (Promise_all
                            (map (\<lambda>(chunk, outputPath).
                               fst (ttsJob world existFiles chunk outputPath)) promises),
                          map (\<lambda>(chunk, outputPath).
                               snd (ttsJob world existFiles chunk outputPath)) promises))))"

section \<open>OcrTask (src/app.ts)\<close>

text \<open>
  Characters that the regular expressions and \<open>parseInt\<close> of the program tell apart.
  \<open>.\<close> matches every character but a line terminator.
\<close>

definition is_digit :: "char \<Rightarrow> bool" where
  "is_digit c = (48 \<le> (of_char c :: nat) \<and> (of_char c :: nat) \<le> 57)"

definition is_lineTerminator :: "char \<Rightarrow> bool" where
  "is_lineTerminator c = ((of_char c :: nat) = 10 \<or> (of_char c :: nat) = 13)"

definition is_whiteSpace :: "char \<Rightarrow> bool" where
  "is_whiteSpace c = ((of_char c :: nat) \<in> {9, 10, 11, 12, 13, 32, 160})"

fun digits_value :: "nat \<Rightarrow> string \<Rightarrow> nat" where
  "digits_value acc [] = acc"
| "digits_value acc (c # cs) = digits_value (acc * 10 + ((of_char c :: nat) - 48)) cs"

text \<open>
  \<open>parseInt(s, 10)\<close>: white space, an optional sign, then the longest run of digits;
  \<open>None\<close> is \<open>NaN\<close>. The value is the exact integer (a JavaScript number is exact up to
  \<open>2^53\<close>).
\<close>

definition parseInt :: "string \<Rightarrow> int option" where
  "parseInt s =
     (let t = dropWhile is_whiteSpace s;
          neg = (t \<noteq> [] \<and> hd t = CHR ''-'');
          u = (if t \<noteq> [] \<and> (hd t = CHR ''-'' \<or> hd t = CHR ''+'') then tl t else t);
          ds = takeWhile is_digit u
      in if ds = [] then None
         else Some (if neg then - int (digits_value 0 ds) else int (digits_value 0 ds)))"

text \<open>
  \<open>name.replace(/^.*?([0-9]+).*$/, '$1')\<close>: when the name has a digit and no line
  terminator, the whole name is replaced by its first run of digits; a name that does not
  match is left as it is.
\<close>

definition replace_first_number :: "string \<Rightarrow> string" where
  "replace_first_number name =
     (if list_ex is_lineTerminator name \<or> \<not> list_ex is_digit name then name
      else takeWhile is_digit (dropWhile (\<lambda>c. \<not> is_digit c) name))"

definition ord :: "string \<Rightarrow> int option" where
  "ord name = parseInt (replace_first_number name)"

text \<open>
  \<open>files.sort((a, b) => this.ord(a) - this.ord(b))\<close>. \<open>Array.prototype.sort\<close> is stable
  and places \<open>a\<close> before \<open>b\<close> when the comparator is negative; a comparator that returns
  \<open>NaN\<close> counts as \<open>0\<close>. With a \<open>NaN\<close> among the keys the order is left to the engine;
  the model is then the insertion sort below.
\<close>

definition ord_compare :: "string \<Rightarrow> string \<Rightarrow> int" where
  "ord_compare a b =
     (case (ord a, ord b) of
        (Some x, Some y) \<Rightarrow> x - y
      | _ \<Rightarrow> 0)"

fun insert_sorted :: "('a \<Rightarrow> 'a \<Rightarrow> int) \<Rightarrow> 'a \<Rightarrow> 'a list \<Rightarrow> 'a list" where
  "insert_sorted cmp a [] = [a]"
| "insert_sorted cmp a (b # bs) =
     (if cmp a b \<le> 0 then a # b # bs else b # insert_sorted cmp a bs)"

definition sort_js :: "('a \<Rightarrow> 'a \<Rightarrow> int) \<Rightarrow> 'a list \<Rightarrow> 'a list" where
  "sort_js cmp xs = foldr (insert_sorted cmp) xs []"

text \<open>
  The outside world of \<open>OcrTask.run\<close>: the listing when the run starts, the outcome of
  the OCR operation for a source and a destination URI, and the listing after it.
\<close>

record OcrWorld =
  listFiles_before :: "string \<Rightarrow> error + string list"
  asyncBatchAnnotateFiles :: "string \<Rightarrow> string \<Rightarrow> error option"
  listFiles_after :: "string \<Rightarrow> error + string list"

text \<open>
  \<open>OcrTask.run(inputFilePath, outputPrefix)\<close> on the bucket \<open>bucketName\<close>: the
  settlement of the returned promise and the OCR requests made (source and destination
  URI), in order. The response of the operation is only logged.
\<close>

definition OcrTask_run ::
  "OcrWorld \<Rightarrow> string \<Rightarrow> string \<Rightarrow> string \<Rightarrow> (error + string list) \<times> (string \<times> string) list" where
  "OcrTask_run world bucketName inputFilePath outputPrefix =
     (case listFiles_before world outputPrefix of
        Inl e \<Rightarrow> (Inl e, [])
      | Inr listFiles \<Rightarrow>
          if length listFiles > 0 then (Inr listFiles, [])
          else
            (let gcsSourceUri = ''gs://'' @ bucketName @ ''/'' @ inputFilePath;
                 gcsDestinationUri = ''gs://'' @ bucketName @ ''/'' @ outputPrefix @ ''/''
             in case asyncBatchAnnotateFiles world gcsSourceUri gcsDestinationUri of
                  Some e \<Rightarrow> (Inl e, [(gcsSourceUri, gcsDestinationUri)])
                | None \<Rightarrow>
                    (case listFiles_after world outputPrefix of
                       Inl e \<Rightarrow> (Inl e, [(gcsSourceUri, gcsDestinationUri)])
                     | Inr files \<Rightarrow>
                         (Inr (sort_js ord_compare files),
                          [(gcsSourceUri, gcsDestinationUri)]))))"

section \<open>ConcatMp3Task (src/app.ts)\<close>

definition maxCombine :: nat where
  "maxCombine = 32"

text \<open>
  \<open>require('path').dirname\<close> of Node (POSIX), a library function: the path up to the
  last \<open>/\<close> that is followed by a name, trailing slashes dropped; \<open>.\<close> when there is
  none.
\<close>

definition dirname :: "string \<Rightarrow> string" where
  "dirname path =
     (if path = [] then ''.''
      else
        (let hasRoot = (hd path = CHR ''/'');
             r = dropWhile (\<lambda>c. c \<noteq> CHR ''/'')
                   (dropWhile (\<lambda>c. c = CHR ''/'') (rev (tl path)))
         in if r = [] then (if hasRoot then ''/'' else ''.'')
            else if hasRoot \<and> length r = 1 then ''//''
            else take (length r) path))"

text \<open>
  \<open>s.replace(/^.*?-([0-9]{3}).*$/, '$1')\<close>: the three digits after the first \<open>-\<close>
  that three digits follow.
\<close>

fun find_dash3 :: "string \<Rightarrow> string option" where
  "find_dash3 [] = None"
| "find_dash3 (c # cs) =
     (if c = CHR ''-'' \<and> 3 \<le> length cs \<and> list_all is_digit (take 3 cs)
      then Some (take 3 cs) else find_dash3 cs)"

definition replace_dash3 :: "string \<Rightarrow> string" where
  "replace_dash3 s =
     (if list_ex is_lineTerminator s then s
      else (case find_dash3 s of None \<Rightarrow> s | Some ds \<Rightarrow> ds))"

text \<open>
  \<open>s.replace(/^.*([0-9]{3})\.mp3$/, '$1')\<close>: the three digits right before a final
  \<open>.mp3\<close>.
\<close>

definition replace_last3 :: "string \<Rightarrow> string" where
  "replace_last3 s =
     (if \<not> list_ex is_lineTerminator s \<and> 7 \<le> length s \<and> suffix ''.mp3'' s
         \<and> list_all is_digit (take 3 (drop (length s - 7) s))
      then take 3 (drop (length s - 7) s) else s)"

text \<open>
  \<open>getConcatFilePath(files)\<close>. On an empty list \<open>files[0]\<close> is \<open>undefined\<close> and
  \<open>dirname\<close> throws a \<open>TypeError\<close>.
\<close>

fun getConcatFilePath :: "string list \<Rightarrow> error + string" where
  "getConcatFilePath [] = Inl TypeError"
| "getConcatFilePath (f # fs) =
     Inr (dirname f @ ''/concat-'' @ replace_dash3 f @ ''-''
            @ replace_last3 (last (f # fs)) @ ''.mp3'')"

text \<open>
  The \<open>for (let i = 0; i < files.length; i+=this.maxCombine)\<close> loop of \<open>run\<close>: each
  round slices a group, names its file and queues the job.
\<close>

function concat_jobs :: "string list \<Rightarrow> nat \<Rightarrow> error + (string list \<times> string) list" where
  "concat_jobs files i =
     (if i < length files then
        (let group = take maxCombine (drop i files) in
         case getConcatFilePath group of
           Inl e \<Rightarrow> Inl e
         | Inr concatFilePath \<Rightarrow>
             (case concat_jobs files (i + maxCombine) of
                Inl e \<Rightarrow> Inl e
              | Inr jobs \<Rightarrow> Inr ((group, concatFilePath) # jobs)))
      else Inr [])"
  by pat_completeness auto
termination
  by (relation "measure (\<lambda>(files, i). length files - i)") (auto simp: maxCombine_def)

declare concat_jobs.simps [simp del]

text \<open>
  The storage calls of \<open>ConcatMp3Task.run\<close>, and their outcomes (\<open>None\<close>: the call
  succeeds). \<open>combine\<close> always passes the metadata \<open>{ contentType: 'audio/mpeg' }\<close>.
\<close>

datatype storage_call = is_Copy: Copy string string | is_Combine: Combine "string list" string

record ConcatWorld =
  gcs_copy :: "string \<Rightarrow> string \<Rightarrow> error option"
  gcs_combine :: "string list \<Rightarrow> string \<Rightarrow> error option"

definition combineJob :: "ConcatWorld \<Rightarrow> string list \<times> string \<Rightarrow> error + string" where
  "combineJob world job =
     (case gcs_combine world (fst job) (snd job) of
        None \<Rightarrow> Inr (snd job)
      | Some e \<Rightarrow> Inl e)"

definition combineCall :: "string list \<times> string \<Rightarrow> storage_call" where
  "combineCall job = Combine (fst job) (snd job)"

lemma Promise_all_length: "Promise_all rs = Inr vs \<Longrightarrow> length vs = length rs"
proof (induction rs arbitrary: vs)
  case Nil
  then show ?case by (simp add: Promise_all_def)
next
  case (Cons r rs)
  show ?case
  proof (cases r)
    case (Inl e)
    with Cons.prems show ?thesis by (simp add: Promise_all_def)
  next
    case (Inr v)
    with Cons.prems obtain vs' where vs': "vs = v # vs'" "Promise_all rs = Inr vs'"
      by (auto simp: Promise_all_def split: list.splits)
    with Cons.IH show ?thesis by simp
  qed
qed

lemma ceil32_step: "0 < (n::nat) \<Longrightarrow> Suc ((n - 32 + 31) div 32) = (n + 31) div 32"
proof (cases "32 \<le> n")
  case True
  then obtain k where k: "n = k + 32"
    using le_Suc_ex by (metis add.commute)
  have "(k + 31 + 32) div 32 = (k + 31) div 32 + 1"
    by (rule div_add_self2) simp
  with k show ?thesis
    by (simp add: add.assoc)
next
  case False
  assume "0 < n"
  with False have "(n + 31) div 32 = 1"
    by (intro div_nat_eqI) simp_all
  with False show ?thesis
    by simp
qed

lemma ceil32_less: "2 \<le> (n::nat) \<Longrightarrow> (n + 31) div 32 < n"
  by (rule less_mult_imp_div_less) simp

lemma concat_jobs_length:
  "concat_jobs files i = Inr jobs \<Longrightarrow> length jobs = (length files - i + 31) div 32"
proof (induction files i arbitrary: jobs rule: concat_jobs.induct)
  case (1 files i)
  show ?case
  proof (cases "i < length files")
    case False
    with "1.prems" show ?thesis
      by (subst (asm) concat_jobs.simps) auto
  next
    case True
    from "1.prems" True obtain p rest where
      p: "getConcatFilePath (take maxCombine (drop i files)) = Inr p"
      and rest: "concat_jobs files (i + maxCombine) = Inr rest"
      and jobs: "jobs = (take maxCombine (drop i files), p) # rest"
      by (subst (asm) concat_jobs.simps) (auto simp: Let_def split: sum.splits)
    from "1.IH"[OF True refl p rest]
    have "length rest = (length files - (i + maxCombine) + 31) div 32" .
    then have "length rest = (length files - i - 32 + 31) div 32"
      by (simp add: maxCombine_def)
    moreover have "Suc ((length files - i - 32 + 31) div 32) = (length files - i + 31) div 32"
      using True by (intro ceil32_step) simp
    ultimately show ?thesis
      using jobs by simp
  qed
qed

text \<open>
  \<open>ConcatMp3Task.run(files, outputPath)\<close>: the settlement of the returned promise and
  the storage calls made, level by level. Every job of a level is started, whatever the
  others do; the next level starts when all of them have succeeded.
\<close>

function ConcatMp3Task_run ::
  "ConcatWorld \<Rightarrow> string list \<Rightarrow> string \<Rightarrow> (error + string) \<times> storage_call list" where
  "ConcatMp3Task_run world files outputPath =
     (if length files = 0 then (Inl (Reason ''files are empty''), [])
      else if length files = 1 then
        (case gcs_copy world (files ! 0) outputPath of
           None \<Rightarrow> (Inr outputPath, [Copy (files ! 0) outputPath])
         | Some e \<Rightarrow> (Inl e, [Copy (files ! 0) outputPath]))
      else
        (case concat_jobs files 0 of
           Inl e \<Rightarrow> (Inl e, [])
         | Inr jobs \<Rightarrow>
             (case Promise_all (map (combineJob world) jobs) of
                Inl e \<Rightarrow> (Inl e, map combineCall jobs)
              | Inr newFiles \<Rightarrow>
                  (case ConcatMp3Task_run world newFiles outputPath of
                     (res, calls) \<Rightarrow> (res, map combineCall jobs @ calls)))))"
  by pat_completeness auto
termination
proof (relation "measure (\<lambda>(world, files, outputPath). length files)")
  show "wf (measure (\<lambda>(world, files, outputPath). length files))"
    by simp
next
  fix world :: ConcatWorld and files :: "string list" and outputPath :: string
    and jobs :: "(string list \<times> string) list" and newFiles :: "string list"
  assume n: "length files \<noteq> 0" "length files \<noteq> 1"
    and jobs: "concat_jobs files 0 = Inr jobs"
    and new: "Promise_all (map (combineJob world) jobs) = Inr newFiles"
  have "length newFiles = (length files + 31) div 32"
    using Promise_all_length[OF new] concat_jobs_length[OF jobs] by simp
  moreover have "2 \<le> length files"
    using n by (cases files) (auto simp: Suc_le_eq)
  ultimately have "length newFiles < length files"
    using ceil32_less[of "length files"] by simp
  then show "((world, newFiles, outputPath), (world, files, outputPath))
      \<in> measure (\<lambda>(world, files, outputPath). length files)"
    by simp
qed

declare ConcatMp3Task_run.simps [simp del]

section \<open>Chunking: what takeChunk returns\<close>

text \<open>
  From an index within the list, the loop of \<open>takeChunk\<close> returns an index \<open>j\<close> not
  before \<open>i\<close>, and the text it had plus the fragments from \<open>i\<close> up to \<open>j\<close>; the result
  is within \<open>maxLength\<close> unless the accumulator already was not, and the fragment at
  \<open>j\<close>, when there is one, would not have fitted.
\<close>

lemma takeChunk_loop_spec:
  "i \<le> length texts \<Longrightarrow>
   \<exists>j. takeChunk_loop texts text i = (text @ concat (take (j - i) (drop i texts)), j)
       \<and> i \<le> j \<and> j \<le> length texts
       \<and> length (text @ concat (take (j - i) (drop i texts))) \<le> max (length text) maxLength
       \<and> (j < length texts \<longrightarrow>
            length (text @ concat (take (j - i) (drop i texts)) @ texts ! j) > maxLength)"
proof (induction texts "text" i rule: takeChunk_loop.induct)
  case (1 texts acc i)
  show ?case
  proof (cases "i < length texts")
    case False
    with "1.prems" show ?thesis
      by (subst takeChunk_loop.simps) simp
  next
    case True
    show ?thesis
    proof (cases "length (acc @ texts ! i) > maxLength")
      case over: True
      with True show ?thesis
        by (subst takeChunk_loop.simps) (auto intro!: exI[of _ i])
    next
      case fit: False
      from True have le: "i + 1 \<le> length texts" by simp
      from "1.IH"[OF True refl fit le]
      obtain j where j: "takeChunk_loop texts (acc @ texts ! i) (i + 1) =
            ((acc @ texts ! i) @ concat (take (j - (i + 1)) (drop (i + 1) texts)), j)"
        "i + 1 \<le> j" "j \<le> length texts"
        "length ((acc @ texts ! i) @ concat (take (j - (i + 1)) (drop (i + 1) texts)))
           \<le> max (length (acc @ texts ! i)) maxLength"
        "j < length texts \<longrightarrow>
           length ((acc @ texts ! i) @ concat (take (j - (i + 1)) (drop (i + 1) texts))
                     @ texts ! j) > maxLength"
        by blast
      have dr: "drop i texts = texts ! i # drop (i + 1) texts"
        using True by (simp add: Cons_nth_drop_Suc)
      have tk: "take (j - i) (drop i texts)
                  = texts ! i # take (j - (i + 1)) (drop (i + 1) texts)"
      proof -
        have "j - i = Suc (j - (i + 1))" using j(2) by simp
        then show ?thesis by (simp add: dr)
      qed
      show ?thesis
        apply (subst takeChunk_loop.simps)
        using True fit j
        apply (intro exI[of _ j])
        apply (simp add: tk Let_def)
        done
    qed
  qed
qed

lemma takeChunk_over:
  assumes "i < length texts" and "maxLength < length (texts ! i)"
  shows "takeChunk texts i = ([], i)"
  using assms by (simp add: takeChunk_def takeChunk_loop.simps[of texts "[]" i])

lemma takeChunk_fits:
  assumes "i < length texts" and "length (texts ! i) \<le> maxLength"
  shows "i < snd (takeChunk texts i)"
proof -
  from assms(1) have "i + 1 \<le> length texts" by simp
  from takeChunk_loop_spec[OF this, of "texts ! i"]
  obtain j where "takeChunk_loop texts (texts ! i) (i + 1) = (texts ! i @ concat (take (j - (i + 1)) (drop (i + 1) texts)), j)"
    and "i + 1 \<le> j" by blast
  with assms show ?thesis
    by (simp add: takeChunk_def takeChunk_loop.simps[of texts "[]" i])
qed

lemma takeChunk_range:
  assumes "i \<le> length texts"
  shows "\<exists>j. takeChunk texts i = (concat (take (j - i) (drop i texts)), j)
           \<and> i \<le> j \<and> j \<le> length texts
           \<and> length (concat (take (j - i) (drop i texts))) \<le> maxLength"
  using takeChunk_loop_spec[OF assms, of "[]"] by (auto simp: takeChunk_def)

text \<open>At a fragment that is too long the loop of \<open>run\<close> repeats its state for ever.\<close>

lemma run_loop_stuck_aux:
  assumes "run_loop (texts :: 'u jstring list) outputPrefix num i promises = Some y"
  shows "\<not> (i < length texts \<and> maxLength < length (texts ! i))"
proof (rule run_loop.raw_induct[where P = "\<lambda>texts outputPrefix num i promises y.
          \<not> (i < length texts \<and> maxLength < length (texts ! i))", OF _ assms])
  fix f :: "'u jstring list \<Rightarrow> string \<Rightarrow> nat \<Rightarrow> nat \<Rightarrow> ('u jstring \<times> string) list
              \<Rightarrow> ('u jstring \<times> string) list option"
    and texts outputPrefix num i promises y
  assume IH: "\<And>texts outputPrefix num i promises y.
      f texts outputPrefix num i promises = Some y \<Longrightarrow>
      \<not> (i < length texts \<and> maxLength < length (texts ! i))"
    and eq: "(if i < length texts then
        f texts outputPrefix (num + 1) (snd (takeChunk texts i))
          (promises @ [(fst (takeChunk texts i), getOutputPath outputPrefix (num + 1))])
      else Some promises) = Some y"
  show "\<not> (i < length texts \<and> maxLength < length (texts ! i))"
  proof
    assume stuck: "i < length texts \<and> maxLength < length (texts ! i)"
    then have tc: "takeChunk texts i = ([], i)"
      by (simp add: takeChunk_over)
    from eq stuck tc
    have "f texts outputPrefix (num + 1) i
            (promises @ [([], getOutputPath outputPrefix (num + 1))]) = Some y"
      by simp
    from IH[OF this] stuck show False by simp
  qed
qed

lemma run_loop_stuck:
  assumes "i < length texts" and "maxLength < length (texts ! i)"
  shows "run_loop texts outputPrefix num i promises = None"
proof (cases "run_loop texts outputPrefix num i promises")
  case None
  then show ?thesis .
next
  case (Some y)
  from run_loop_stuck_aux[OF this] assms show ?thesis by simp
qed


text \<open>
  Where every fragment fits, the loop of \<open>run\<close> ends: its chunks are the joined texts
  of consecutive, non-empty groups of fragments that make up the rest of the list, each
  within \<open>maxLength\<close>, with the output paths numbered on from \<open>num + 1\<close>.
\<close>

lemma run_loop_fits:
  assumes fits: "\<forall>t\<in>set texts. length t \<le> maxLength"
  shows "i \<le> length texts \<Longrightarrow>
     \<exists>groups. run_loop texts outputPrefix num i promises =
         Some (promises @ zip (map concat groups)
                 (map (\<lambda>k. getOutputPath outputPrefix (num + 1 + k)) [0..<length groups]))
       \<and> concat groups = drop i texts \<and> [] \<notin> set groups
       \<and> (\<forall>g\<in>set groups. length (concat g) \<le> maxLength)"
proof (induction "length texts - i" arbitrary: i num promises rule: less_induct)
  case less
  show ?case
  proof (cases "i < length texts")
    case False
    with less.prems have "run_loop texts outputPrefix num i promises = Some promises"
      by (subst run_loop.simps) simp
    with False less.prems show ?thesis
      by (intro exI[of _ "[]"]) simp
  next
    case True
    from takeChunk_range[of i texts] less.prems
    obtain j where j: "takeChunk texts i = (concat (take (j - i) (drop i texts)), j)"
      "i \<le> j" "j \<le> length texts"
      "length (concat (take (j - i) (drop i texts))) \<le> maxLength"
      by blast
    from True fits have "length (texts ! i) \<le> maxLength" by simp
    from takeChunk_fits[OF True this] j(1) have ij: "i < j" by simp
    let ?g = "take (j - i) (drop i texts)"
    let ?promises = "promises @ [(concat ?g, getOutputPath outputPrefix (num + 1))]"
    from ij j(3) have "length texts - j < length texts - i" by simp
    from less.hyps[OF this j(3), of "num + 1" ?promises]
    obtain groups where groups:
      "run_loop texts outputPrefix (num + 1) j ?promises =
         Some (?promises @ zip (map concat groups)
                 (map (\<lambda>k. getOutputPath outputPrefix (num + 1 + 1 + k)) [0..<length groups]))"
      "concat groups = drop j texts" "[] \<notin> set groups"
      "\<forall>g\<in>set groups. length (concat g) \<le> maxLength"
      by blast
    have step: "run_loop texts outputPrefix num i promises =
                  run_loop texts outputPrefix (num + 1) j ?promises"
      using True j(1) by (subst run_loop.simps) simp
    have upt: "map (\<lambda>k. getOutputPath outputPrefix (num + 1 + k)) [0..<length (?g # groups)]
       = getOutputPath outputPrefix (num + 1)
           # map (\<lambda>k. getOutputPath outputPrefix (num + 1 + 1 + k)) [0..<length groups]"
      by (simp add: upt_conv_Cons map_Suc_upt[symmetric] del: upt_Suc)
    have ne: "?g \<noteq> []"
      using ij True by simp
    have cc: "concat (?g # groups) = drop i texts"
    proof -
      have a: "drop (j - i) (drop i texts) = drop j texts"
        using j(2) by simp
      have "?g @ drop j texts = drop i texts"
        unfolding a[symmetric] by (rule append_take_drop_id)
      then show ?thesis
        using groups(2) by simp
    qed
    show ?thesis
      apply (rule exI[of _ "?g # groups"])
      apply (simp only: step groups(1) upt)
      using ne cc groups(3,4) j(4)
      apply simp
      done
  qed
qed

text \<open>
  A fragment that is too long, anywhere from \<open>i\<close> on, is never passed: no chunk
  holds it, so the loop arrives at it and stays there. The loop of \<open>run\<close> therefore
  ends exactly when every fragment fits.
\<close>

lemma length_le_concat: "x \<in> set xs \<Longrightarrow> length x \<le> length (concat xs)"
  by (induction xs) auto

lemma run_loop_oversized:
  "i \<le> length texts \<Longrightarrow> \<exists>t\<in>set (drop i texts). maxLength < length t \<Longrightarrow>
   run_loop texts outputPrefix num i promises = None"
proof (induction "length texts - i" arbitrary: i num promises rule: less_induct)
  case less
  from less.prems(2) have i: "i < length texts"
    by (cases "i < length texts") auto
  show ?case
  proof (cases "maxLength < length (texts ! i)")
    case True
    with i show ?thesis by (rule run_loop_stuck)
  next
    case False
    from takeChunk_range[of i texts] i
    obtain j where j: "takeChunk texts i = (concat (take (j - i) (drop i texts)), j)"
      "i \<le> j" "j \<le> length texts"
      "length (concat (take (j - i) (drop i texts))) \<le> maxLength"
      by auto
    from False takeChunk_fits[OF i] j(1) have ij: "i < j" by simp
    from less.prems(2) obtain t where t: "t \<in> set (drop i texts)" "maxLength < length t"
      by blast
    have "drop i texts = take (j - i) (drop i texts) @ drop j texts"
      using j(2) by (metis add.commute append_take_drop_id drop_drop le_add_diff_inverse)
    with t(1) have "t \<in> set (take (j - i) (drop i texts)) \<or> t \<in> set (drop j texts)"
      by (metis Un_iff set_append)
    moreover have "t \<notin> set (take (j - i) (drop i texts))"
    proof
      assume "t \<in> set (take (j - i) (drop i texts))"
      from length_le_concat[OF this] j(4) t(2) show False by simp
    qed
    ultimately have later: "\<exists>t\<in>set (drop j texts). maxLength < length t"
      using t(2) by blast
    from ij j(3) have "length texts - j < length texts - i" by simp
    from less.hyps[OF this j(3) later]
    have "run_loop texts outputPrefix (num + 1) j
            (promises @ [(concat (take (j - i) (drop i texts)), getOutputPath outputPrefix (num + 1))])
          = None" .
    with i j(1) show ?thesis
      by (subst run_loop.simps) simp
  qed
qed

lemma run_loop_ends_iff:
  "(\<exists>promises. run_loop texts outputPrefix 0 0 [] = Some promises)
     \<longleftrightarrow> (\<forall>t\<in>set texts. length t \<le> maxLength)"
proof
  assume "\<exists>promises. run_loop texts outputPrefix 0 0 [] = Some promises"
  then show "\<forall>t\<in>set texts. length t \<le> maxLength"
    using run_loop_oversized[of 0 texts outputPrefix 0 "[]"] by fastforce
next
  assume "\<forall>t\<in>set texts. length t \<le> maxLength"
  from run_loop_fits[OF this, of 0 outputPrefix 0 "[]"] show
    "\<exists>promises. run_loop texts outputPrefix 0 0 [] = Some promises"
    by auto
qed

text \<open>
  Claim C2: a fragment at the start index that alone exceeds \<open>maxLength\<close> is said to be
  returned as the chunk. The code does not do so: for one fragment of length 6000,
  \<open>takeChunk\<close> returns the empty text and the index it was given.
\<close>

theorem takeChunk_oversized_fragment: "takeChunk [replicate 6000 (CHR ''a'')] 0 = ([], 0)"
  using takeChunk_over[of 0 "[replicate 6000 (CHR ''a'')]"]
  by (simp add: maxLength_def)

text \<open>
  Claim C3: iterating \<open>takeChunk\<close> from index 0 until the returned index is the length
  of the list is said to give chunks that put the list together again, for every list
  of fragments. For one fragment of length 6000 the iteration of \<open>run\<close> never gets
  there (\<open>run_loop_fits\<close> is the round trip where every fragment fits).
\<close>

theorem run_loop_oversized_fragment: "run_loop [replicate 6000 (CHR ''a'')] outputPrefix 0 0 [] = None"
  using run_loop_stuck[of 0 "[replicate 6000 (CHR ''a'')]"]
  by (simp add: maxLength_def)

text \<open>
  Claim C10: at an index within the list, \<open>takeChunk\<close> returns a greater index exactly
  when the fragment there is at most \<open>maxLength\<close> long; at a longer fragment it returns
  the empty text and the same index, and the loop of \<open>run\<close> never ends from there.
\<close>

theorem takeChunk_progress_iff:
  "i < length texts \<Longrightarrow>
     (i < snd (takeChunk texts i) \<longleftrightarrow> length (texts ! i) \<le> maxLength)
   \<and> (maxLength < length (texts ! i) \<longrightarrow>
         takeChunk texts i = ([], i)
       \<and> run_loop texts outputPrefix num i promises = None)"
  using takeChunk_over[of i texts] takeChunk_fits[of i texts]
    run_loop_stuck[of i texts outputPrefix num promises]
  by (cases "length (texts ! i) \<le> maxLength") auto

theorem takeChunk_progress_iff_witness:
  "(1::nat) < length [''ab'', replicate 5001 (CHR ''a'')]
   \<and> maxLength = 5000
   \<and> \<not> 1 < snd (takeChunk [''ab'', replicate 5001 (CHR ''a'')] 1)
   \<and> takeChunk [''ab'', replicate 5001 (CHR ''a'')] 1 = ([], 1)
   \<and> run_loop [''ab'', replicate 5001 (CHR ''a'')] ''out'' 1 1 [(''ab'', ''out/output-001.mp3'')] = None
   \<and> 0 < snd (takeChunk [''ab'', replicate 5001 (CHR ''a'')] 0)"
  using takeChunk_progress_iff[of 1 "[''ab'', replicate 5001 (CHR ''a'')]" "''out''" 1
          "[(''ab'', ''out/output-001.mp3'')]"]
    takeChunk_progress_iff[of 0 "[''ab'', replicate 5001 (CHR ''a'')]" "''out''" 0 "[]"]
  by (simp add: maxLength_def)

section \<open>Sentences: what splitSentences pushes and returns\<close>

text \<open>
  The loop over a page pushes one string for every word but the last:
  the guard \<open>i < words.length-1\<close> is false at the last index.
\<close>

lemma concat_guarded_upt:
  "concat (map (\<lambda>i. if i < m then [f i] else []) [0..<n]) = map f [0..<min m n]"
proof (induction n)
  case 0
  show ?case by simp
next
  case (Suc n)
  show ?case
  proof (cases "n < m")
    case True
    then have "min m (Suc n) = Suc n" "min m n = n" by simp_all
    with Suc True show ?thesis by simp
  next
    case False
    then have "min m (Suc n) = min m n" by simp
    with Suc False show ?thesis by simp
  qed
qed

lemma pageTexts_map:
  "pageTexts delimiter words =
     map (\<lambda>i. if boundary (Math_max (concat (map ys_of words)))
                     (ys_of (words ! i)) (ys_of (words ! (i + 1)))
                then wlt_text (words ! i) @ delimiter else wlt_text (words ! i))
       [0..<length words - 1]"
proof -
  have "pageTexts delimiter words =
     map (\<lambda>i. if boundary (Math_max (concat (map ys_of words)))
                     (ys_of (words ! i)) (ys_of (words ! (i + 1)))
                then wlt_text (words ! i) @ delimiter else wlt_text (words ! i))
       [0..<min (length words - 1) (length words)]"
    unfolding pageTexts_def Let_def by (rule concat_guarded_upt)
  moreover have "min (length words - 1) (length words) = length words - 1"
    by simp
  ultimately show ?thesis
    by (simp only:)
qed


text \<open>
  Rounding to a double: the search for the exponent finds the \<open>e\<close> between whose powers
  of two the value lies, which fixes the spacing \<open>2^(e-52)\<close> of the doubles around it.
\<close>

lemma power_int_2_less_exp:
  assumes "(2::rat) powi a < 2 powi b"
  shows "a < b"
proof (rule ccontr)
  assume "\<not> a < b"
  then have "b \<le> a" by simp
  then have "(2::rat) powi b \<le> 2 powi a"
    by (intro power_int_increasing) simp_all
  with assms show False by simp
qed

lemma find_exponent_eq:
  assumes "- 1022 \<le> e" and "e \<le> int k - 1022"
    and "2 powi e \<le> x" and "x < 2 powi (e + 1)"
  shows "find_exponent k x = e"
  using assms
proof (induction k)
  case 0
  then show ?case by simp
next
  case (Suc k)
  show ?case
  proof (cases "2 powi (int (Suc k) - 1022) \<le> x")
    case True
    with Suc.prems(4) have "(2::rat) powi (int (Suc k) - 1022) < 2 powi (e + 1)"
      by simp
    from power_int_2_less_exp[OF this] Suc.prems(2) have "e = int (Suc k) - 1022"
      by simp
    with True show ?thesis by simp
  next
    case False
    with Suc.prems(3) have "(2::rat) powi e < 2 powi (int (Suc k) - 1022)"
      by simp
    from power_int_2_less_exp[OF this] have "e \<le> int k - 1022"
      by simp
    from Suc.IH[OF Suc.prems(1) this Suc.prems(3,4)] False show ?thesis
      by simp
  qed
qed

lemma round_half_even_below:
  assumes "of_int m \<le> x" and "x < of_int m + 1 / 2"
  shows "round_half_even x = m"
proof -
  from assms have "\<lfloor>x\<rfloor> = m"
    by (intro floor_unique) simp_all
  with assms(2) show ?thesis
    by (simp add: round_half_even_def Let_def)
qed

lemma round_half_even_above:
  assumes "of_int m - 1 / 2 < x" and "x < of_int m"
  shows "round_half_even x = m"
proof -
  from assms have "\<lfloor>x\<rfloor> = m - 1"
    by (intro floor_unique) simp_all
  with assms(1) show ?thesis
    by (simp add: round_half_even_def Let_def)
qed

lemma round_double_eq:
  assumes "x \<noteq> 0" and "- 1022 \<le> e" and "e \<le> 1023"
    and "2 powi e \<le> \<bar>x\<bar>" and "\<bar>x\<bar> < 2 powi (e + 1)"
    and "round_half_even (x / 2 powi (e - 52)) = m" and "\<bar>m\<bar> < 2 ^ 53"
  shows "round_double x = Fin (of_int m * 2 powi (e - 52))"
proof -
  have e: "double_exponent \<bar>x\<bar> = e"
    unfolding double_exponent_def using assms(2-5) by (intro find_exponent_eq) simp_all
  have "\<bar>rat_of_int m\<bar> < 2 ^ 53"
    using assms(7) by (metis of_int_abs of_int_less_numeral_power_cancel_iff)
  moreover have "(0::rat) < 2 powi (e - 52)" by simp
  ultimately have "\<bar>rat_of_int m\<bar> * 2 powi (e - 52) < 2 ^ 53 * 2 powi (e - 52)"
    by (intro mult_strict_right_mono)
  also have "\<dots> = 2 powi 53 * 2 powi (e - 52)"
    by simp
  also have "\<dots> = 2 powi (53 + (e - 52))"
    by (rule power_int_add[symmetric]) simp
  also have "\<dots> \<le> 2 powi 1024"
    using assms(3) by (intro power_int_increasing) simp_all
  finally have "\<bar>rat_of_int m * 2 powi (e - 52)\<bar> < 2 ^ 1024"
    by (simp add: abs_mult)
  with assms(1,6) e show ?thesis
    by (simp add: round_double_def Let_def del: power_int_numeral)
qed

text \<open>
  Three products: \<open>1 * 0.9\<close> is \<open>0.9\<close>; \<open>0.875 * 0.9\<close> is the double
  \<open>0.7875\<close>, which lies below seven eighths of nine tenths; \<open>0.1 * 0.9\<close> is the
  double \<open>0.09000000000000001\<close>, which lies above the double \<open>0.09\<close>.
\<close>

lemma powi_examples:
  "(2::rat) powi (- 1) = 1 / 2" "(2::rat) powi 0 = 1"
  "(2::rat) powi (- 53) = 1 / 9007199254740992"
  "(2::rat) powi (- 4) = 1 / 16" "(2::rat) powi (- 3) = 1 / 8"
  "(2::rat) powi (- 56) = 1 / 72057594037927936"
  by (simp_all add: power_int_minus field_simps)

lemma times_0_9_examples:
  "times_0_9 (Fin 1) = Fin (8106479329266893 / 9007199254740992)"
  "times_0_9 (Fin (7 / 8)) = Fin (7093169413108531 / 9007199254740992)"
  "times_0_9 (Fin (3602879701896397 / 36028797018963968))
     = Fin (6485183463413515 / 72057594037927936)"
proof -
  show "times_0_9 (Fin 1) = Fin (8106479329266893 / 9007199254740992)"
    using round_double_eq[of "1 * double_0_9" "- 1" 8106479329266893]
      round_half_even_below[of 8106479329266893 8106479329266893]
    by (simp add: double_0_9_def powi_examples)
  show "times_0_9 (Fin (7 / 8)) = Fin (7093169413108531 / 9007199254740992)"
    using round_double_eq[of "7 / 8 * double_0_9" "- 1" 7093169413108531]
      round_half_even_below[of 7093169413108531 "56745355304868251 / 8"]
    by (simp add: double_0_9_def powi_examples)
  show "times_0_9 (Fin (3602879701896397 / 36028797018963968))
     = Fin (6485183463413515 / 72057594037927936)"
    using round_double_eq[of "3602879701896397 / 36028797018963968 * double_0_9" "- 4"
        6485183463413515]
      round_half_even_above[of 6485183463413515
        "3602879701896397 * 8106479329266893 / 4503599627370496"]
    by (simp add: double_0_9_def powi_examples)
qed

declare times_0_9.simps(3) [simp del]

text \<open>
  \<open>Math.max\<close> and \<open>Math.min\<close> of finite numbers are their greatest and least, and
  \<open>Math.max\<close> is \<open>NaN\<close> when an argument is.
\<close>

lemma js_less_never [simp]:
  "js_less a NaN = False" "js_less a NegInf = False"
  "js_less NaN a = False" "js_less PosInf a = False"
  by (cases a; simp)+













lemma pageTexts_single: "pageTexts delimiter [w] = []"
  by (simp add: pageTexts_map)

lemmas sentence_defs = splitSentences_def collectPages_def pageTexts_def boundary_def
  Math_max_def Math_min_def js_max2_def js_min2_def times_0_9_examples ys_of_def
  split_def Let_def

text \<open>
  Claim C1: the text of every word of a page, the last one included, is said to reach the
  output. The code pushes nothing for the last word of a page: a page of one word gives
  no text at all, and for a page with the words \<open>ab\<close> and \<open>c\<close> the fragments are
  \<open>ab.\<close> alone.
\<close>

theorem splitSentences_drops_last_word:
  "pageTexts delimiter [w] = []
   \<and> splitSentences ''.''
     \<lparr>root_responses = [\<lparr>response_fullTextAnnotation = Some \<lparr>annotation_pages =
        [\<lparr>page_blocks = [\<lparr>block_paragraphs = [\<lparr>paragraph_words =
          [\<lparr>word_boundingBox = \<lparr>poly_normalizedVertices =
               [\<lparr>vertex_x = Fin (1 / 8), vertex_y = Fin (1 / 8)\<rparr>, \<lparr>vertex_x = Fin (1 / 4), vertex_y = Fin (1 / 4)\<rparr>]\<rparr>,
             word_symbols = [\<lparr>symbol_text = ''a''\<rparr>, \<lparr>symbol_text = ''b''\<rparr>]\<rparr>,
           \<lparr>word_boundingBox = \<lparr>poly_normalizedVertices =
               [\<lparr>vertex_x = Fin (3 / 8), vertex_y = Fin (3 / 16)\<rparr>, \<lparr>vertex_x = Fin (1 / 2), vertex_y = Fin 1\<rparr>]\<rparr>,
             word_symbols = [\<lparr>symbol_text = ''c''\<rparr>]\<rparr>]\<rparr>]\<rparr>]\<rparr>]\<rparr>\<rparr>]\<rparr>
     = [''ab.'']"
  by (simp add: sentence_defs suffix_to_prefix)



section \<open>Sentences: the pieces of split\<close>

text \<open>
  A piece cut by a separator that is not empty never ends with the separator: the
  separator would have been found where that occurrence starts.
\<close>

lemma no_occurrence_no_suffix:
  assumes "sep \<noteq> []"
    and "\<forall>k<length piece. \<not> prefix sep (drop k (piece @ rest))"
  shows "\<not> suffix sep piece"
proof
  assume "suffix sep piece"
  then obtain u where u: "piece = u @ sep"
    by (auto simp: suffix_def)
  with assms(1) have "length u < length piece" by simp
  with assms(2) have "\<not> prefix sep (drop (length u) (piece @ rest))" by blast
  with u show False by simp
qed

lemma split_from_no_suffix:
  "sep \<noteq> [] \<Longrightarrow> \<forall>k<length piece. \<not> prefix sep (drop k (piece @ rest)) \<Longrightarrow>
   x \<in> set (split_from sep piece rest) \<Longrightarrow> \<not> suffix sep x"
proof (induction sep piece rest arbitrary: x rule: split_from.induct)
  case (1 sep piece)
  then show ?case
    using no_occurrence_no_suffix[of sep piece "[]"] by simp
next
  case (2 sep piece c cs)
  show ?case
  proof (cases "prefix sep (c # cs)")
    case True
    with "2.prems"(1,3) have "x = piece \<or> x \<in> set (split_from sep [] (drop (length sep) (c # cs)))"
      by simp
    then show ?thesis
    proof
      assume "x = piece"
      with "2.prems"(1,2) show ?thesis
        using no_occurrence_no_suffix[of sep piece "c # cs"] by simp
    next
      assume x: "x \<in> set (split_from sep [] (drop (length sep) (c # cs)))"
      from "2.prems"(1) True have "sep \<noteq> [] \<and> prefix sep (c # cs)" by simp
      from "2.IH"(1)[OF this "2.prems"(1) _ x] show ?thesis by simp
    qed
  next
    case False
    with "2.prems"(3) have x: "x \<in> set (split_from sep (piece @ [c]) cs)"
      by simp
    have inv: "\<forall>k<length (piece @ [c]). \<not> prefix sep (drop k ((piece @ [c]) @ cs))"
    proof (intro allI impI)
      fix k assume "k < length (piece @ [c])"
      then consider "k < length piece" | "k = length piece" by fastforce
      then show "\<not> prefix sep (drop k ((piece @ [c]) @ cs))"
      proof cases
        case 1
        with "2.prems"(2) show ?thesis by simp
      next
        case 2
        with False show ?thesis by simp
      qed
    qed
    from False have "\<not> (sep \<noteq> [] \<and> prefix sep (c # cs))" by simp
    from "2.IH"(2)[OF this "2.prems"(1) inv x] show ?thesis .
  qed
qed

lemma split_no_suffix:
  "sep \<noteq> [] \<Longrightarrow> x \<in> set (split s sep) \<Longrightarrow> \<not> suffix sep x"
  using split_from_no_suffix[of sep "[]" s x] by (simp add: split_def)

text \<open>
  Claim C5: every fragment that \<open>splitSentences\<close> returns is non-empty and ends with
  the delimiter, for every OCR result and every delimiter: the empty pieces of the split
  are dropped and the delimiter is appended to each piece that is left.
\<close>

theorem splitSentences_fragments:
  "(\<forall>x\<in>set (splitSentences delimiter result). x \<noteq> [] \<and> suffix delimiter x)
   \<and> splitSentences delimiter result =
       map (\<lambda>x. x @ delimiter)
         (filter (\<lambda>x. x \<noteq> [])
           (split (concat (concat (map (pageTexts delimiter) (collectPages result)))) delimiter))"
proof
  show "\<forall>x\<in>set (splitSentences delimiter result). x \<noteq> [] \<and> suffix delimiter x"
    by (auto simp: splitSentences_def Let_def intro: suffixI)
next
  let ?pieces = "split (concat (concat (map (pageTexts delimiter) (collectPages result)))) delimiter"
  have eq: "(if suffix delimiter x then x else x @ delimiter) = x @ delimiter"
    if "x \<in> set ?pieces" for x
  proof (cases "delimiter = []")
    case True
    then show ?thesis by simp
  next
    case False
    from split_no_suffix[OF False that] show ?thesis by simp
  qed
  have "map (\<lambda>x. if suffix delimiter x then x else x @ delimiter) (filter (\<lambda>x. x \<noteq> []) ?pieces)
      = map (\<lambda>x. x @ delimiter) (filter (\<lambda>x. x \<noteq> []) ?pieces)"
  proof (rule map_cong[OF refl])
    fix x assume "x \<in> set (filter (\<lambda>x. x \<noteq> []) ?pieces)"
    then have "x \<in> set ?pieces" by simp
    from eq[OF this] show "(if suffix delimiter x then x else x @ delimiter) = x @ delimiter" .
  qed
  then show "splitSentences delimiter result =
       map (\<lambda>x. x @ delimiter)
         (filter (\<lambda>x. x \<noteq> [])
           (split (concat (concat (map (pageTexts delimiter) (collectPages result)))) delimiter))"
    by (simp add: splitSentences_def Let_def)
qed

text \<open>
  An instance with the delimiter of the program, the ideographic full stop (code unit
  12290): the words are the code units 26085 followed by 12290, then 26412, then 35486.
\<close>

theorem splitSentences_fragments_witness:
  "splitSentences [12290::nat]
     \<lparr>root_responses = [\<lparr>response_fullTextAnnotation = Some \<lparr>annotation_pages =
        [\<lparr>page_blocks = [\<lparr>block_paragraphs = [\<lparr>paragraph_words =
          [\<lparr>word_boundingBox = \<lparr>poly_normalizedVertices =
               [\<lparr>vertex_x = Fin (1 / 8), vertex_y = Fin (1 / 8)\<rparr>, \<lparr>vertex_x = Fin (1 / 4), vertex_y = Fin (1 / 4)\<rparr>]\<rparr>,
             word_symbols = [\<lparr>symbol_text = [26085]\<rparr>, \<lparr>symbol_text = [12290]\<rparr>]\<rparr>,
           \<lparr>word_boundingBox = \<lparr>poly_normalizedVertices =
               [\<lparr>vertex_x = Fin (3 / 8), vertex_y = Fin (3 / 16)\<rparr>, \<lparr>vertex_x = Fin (1 / 2), vertex_y = Fin (1 / 4)\<rparr>]\<rparr>,
             word_symbols = [\<lparr>symbol_text = [26412]\<rparr>]\<rparr>,
           \<lparr>word_boundingBox = \<lparr>poly_normalizedVertices =
               [\<lparr>vertex_x = Fin (1 / 8), vertex_y = Fin (15 / 16)\<rparr>, \<lparr>vertex_x = Fin (1 / 2), vertex_y = Fin 1\<rparr>]\<rparr>,
             word_symbols = [\<lparr>symbol_text = [35486]\<rparr>]\<rparr>]\<rparr>]\<rparr>]\<rparr>]\<rparr>\<rparr>]\<rparr>
     = [[26085, 12290], [26412, 12290]]
   \<and> suffix [12290::nat] [26085, 12290] \<and> suffix [12290::nat] [26412, 12290]"
  using splitSentences_fragments[of "[12290::nat]"
     "\<lparr>root_responses = [\<lparr>response_fullTextAnnotation = Some \<lparr>annotation_pages =
        [\<lparr>page_blocks = [\<lparr>block_paragraphs = [\<lparr>paragraph_words =
          [\<lparr>word_boundingBox = \<lparr>poly_normalizedVertices =
               [\<lparr>vertex_x = Fin (1 / 8), vertex_y = Fin (1 / 8)\<rparr>, \<lparr>vertex_x = Fin (1 / 4), vertex_y = Fin (1 / 4)\<rparr>]\<rparr>,
             word_symbols = [\<lparr>symbol_text = [26085]\<rparr>, \<lparr>symbol_text = [12290]\<rparr>]\<rparr>,
           \<lparr>word_boundingBox = \<lparr>poly_normalizedVertices =
               [\<lparr>vertex_x = Fin (3 / 8), vertex_y = Fin (3 / 16)\<rparr>, \<lparr>vertex_x = Fin (1 / 2), vertex_y = Fin (1 / 4)\<rparr>]\<rparr>,
             word_symbols = [\<lparr>symbol_text = [26412]\<rparr>]\<rparr>,
           \<lparr>word_boundingBox = \<lparr>poly_normalizedVertices =
               [\<lparr>vertex_x = Fin (1 / 8), vertex_y = Fin (15 / 16)\<rparr>, \<lparr>vertex_x = Fin (1 / 2), vertex_y = Fin 1\<rparr>]\<rparr>,
             word_symbols = [\<lparr>symbol_text = [35486]\<rparr>]\<rparr>]\<rparr>]\<rparr>]\<rparr>]\<rparr>\<rparr>]\<rparr>"]
  by (simp add: sentence_defs suffix_to_prefix)

section \<open>OcrTask: the listing that is returned\<close>

text \<open>
  With a listing that is not empty, \<open>OcrTask.run\<close> makes no OCR request and returns
  the listing as the storage gave it.
\<close>

lemma OcrTask_run_skip:
  assumes "listFiles_before world outputPrefix = Inr listFiles" and "listFiles \<noteq> []"
  shows "OcrTask_run world bucketName inputFilePath outputPrefix = (Inr listFiles, [])"
  using assms by (simp add: OcrTask_run_def)

text \<open>After a successful OCR operation the new listing is returned sorted.\<close>

lemma OcrTask_run_fresh:
  assumes "listFiles_before world outputPrefix = Inr []"
    and "asyncBatchAnnotateFiles world (''gs://'' @ bucketName @ ''/'' @ inputFilePath)
           (''gs://'' @ bucketName @ ''/'' @ outputPrefix @ ''/'') = None"
    and "listFiles_after world outputPrefix = Inr files"
  shows "fst (OcrTask_run world bucketName inputFilePath outputPrefix)
           = Inr (sort_js ord_compare files)"
  using assms by (simp add: OcrTask_run_def)

lemmas ord_defs = ord_def parseInt_def replace_first_number_def is_digit_def
  is_lineTerminator_def is_whiteSpace_def ord_compare_def sort_js_def Let_def

lemma ord_examples:
  "ord ''json/b/output-1-to-20.json'' = Some 1"
  "ord ''json/b/output-101-to-120.json'' = Some 101"
  "ord ''json/b/output-21-to-40.json'' = Some 21"
  by (simp_all add: ord_defs)

text \<open>
  Claim C4: when the destination prefix already holds output objects, \<open>OcrTask.run\<close>
  is said to skip the OCR call and to return the shard list sorted by the number in
  each name. It skips the call, but returns the listing unsorted: the storage lists
  names in the order of their characters, so for the shards 1-20, 21-40 and 101-120 the
  result has the keys 1, 101, 21, where the sort of the other branch gives 1, 21, 101.
\<close>

theorem OcrTask_run_skip_unsorted:
  "OcrTask_run
     \<lparr>listFiles_before = (\<lambda>p. Inr [''json/b/output-1-to-20.json'',
                                    ''json/b/output-101-to-120.json'',
                                    ''json/b/output-21-to-40.json'']),
      asyncBatchAnnotateFiles = (\<lambda>s d. None),
      listFiles_after = (\<lambda>p. Inr [])\<rparr>
     ''pdf-audify'' ''b.pdf'' ''json/b''
   = (Inr [''json/b/output-1-to-20.json'', ''json/b/output-101-to-120.json'',
           ''json/b/output-21-to-40.json''], [])
   \<and> map ord [''json/b/output-1-to-20.json'', ''json/b/output-101-to-120.json'',
              ''json/b/output-21-to-40.json''] = [Some 1, Some 101, Some 21]
   \<and> sort_js ord_compare [''json/b/output-1-to-20.json'', ''json/b/output-101-to-120.json'',
              ''json/b/output-21-to-40.json'']
       = [''json/b/output-1-to-20.json'', ''json/b/output-21-to-40.json'',
          ''json/b/output-101-to-120.json'']"
  by (simp add: OcrTask_run_def ord_examples ord_compare_def sort_js_def)

section \<open>TextToSpeechTask.run: retries and resume\<close>

text \<open>
  One job calls \<open>ttsRequest\<close> at most five times: the attempts are numbered from 1,
  and the sixth attempt rejects without a call.
\<close>

lemma decimal_5: "decimal 5 = ''5''"
  by (simp add: decimal.simps[of 5])

lemma ttsAttempt_calls: "snd (ttsAttempt world chunk outputPath count) \<le> (if count > 5 then 0 else 1)"
  by (simp add: ttsAttempt_def split: option.splits)

lemma promiseRetry_from_calls:
  "snd (promiseRetry_from retries (ttsAttempt world chunk outputPath) number) \<le> 6 - number"
proof (induction retries arbitrary: number)
  case 0
  show ?case
    by (auto simp: ttsAttempt_def split: option.splits)
next
  case (Suc retries)
  show ?case
  proof (cases "number > 5")
    case True
    then have "fst (ttsAttempt world chunk outputPath number)
                 = Reject (Reason (''gave up after '' @ decimal (number - 1) @ '' retry''))"
      and "snd (ttsAttempt world chunk outputPath number) = 0"
      by (simp_all add: ttsAttempt_def)
    then show ?thesis by (cases "ttsAttempt world chunk outputPath number") simp
  next
    case False
    show ?thesis
    proof (cases "ttsRequest_fails world chunk outputPath number")
      case None
      with False have "ttsAttempt world chunk outputPath number = (Resolve outputPath, 1)"
        by (simp add: ttsAttempt_def)
      with False show ?thesis by simp
    next
      case (Some e)
      with False have "ttsAttempt world chunk outputPath number = (Retry e, 1)"
        by (simp add: ttsAttempt_def)
      with Suc[of "number + 1"] False show ?thesis
        by (auto split: prod.splits)
    qed
  qed
qed

lemma promiseRetry_from_gave_up:
  "\<forall>count\<in>{number..5}. ttsRequest_fails world chunk outputPath count \<noteq> None \<Longrightarrow>
   number \<le> 6 \<Longrightarrow> 6 \<le> retries + number \<Longrightarrow>
   promiseRetry_from retries (ttsAttempt world chunk outputPath) number
     = (Inl (Reason ''gave up after 5 retry''), 6 - number)"
proof (induction retries arbitrary: number)
  case 0
  then have "number = 6" by simp
  then show ?case by (simp add: ttsAttempt_def decimal_5)
next
  case (Suc retries)
  show ?case
  proof (cases "number = 6")
    case True
    then show ?thesis by (simp add: ttsAttempt_def decimal_5)
  next
    case False
    with Suc.prems have n: "number \<le> 5" by simp
    with Suc.prems(1) obtain e where e: "ttsRequest_fails world chunk outputPath number = Some e"
      by fastforce
    have "\<forall>count\<in>{number + 1..5}. ttsRequest_fails world chunk outputPath count \<noteq> None"
      using Suc.prems(1) by simp
    from Suc.IH[OF this] n Suc.prems(3)
    have "promiseRetry_from retries (ttsAttempt world chunk outputPath) (number + 1)
            = (Inl (Reason ''gave up after 5 retry''), 6 - (number + 1))"
      by simp
    moreover from n e have "ttsAttempt world chunk outputPath number = (Retry e, 1)"
      by (simp add: ttsAttempt_def)
    ultimately show ?thesis
      using n by simp
  qed
qed

lemma ttsJob_calls: "snd (ttsJob world existFiles chunk outputPath) \<le> 5"
  using promiseRetry_from_calls[of 10 world chunk outputPath 1]
  by (simp add: ttsJob_def promiseRetry_def)

lemma ttsJob_gave_up:
  assumes "\<not> list_ex (\<lambda>f. suffix outputPath f) existFiles"
    and "\<forall>count\<in>{1..5}. ttsRequest_fails world chunk outputPath count \<noteq> None"
  shows "ttsJob world existFiles chunk outputPath = (Inl (Reason ''gave up after 5 retry''), 5)"
  using assms promiseRetry_from_gave_up[of 1 world chunk outputPath 10]
  by (simp add: ttsJob_def promiseRetry_def)

lemma ttsJob_skip:
  assumes "list_ex (\<lambda>f. suffix outputPath f) existFiles"
  shows "ttsJob world existFiles chunk outputPath = (Inr outputPath, 0)"
  using assms by (simp add: ttsJob_def)

text \<open>\<open>Promise.all\<close> rejects when one input rejects, and else keeps the order.\<close>

lemma Promise_all_Inl:
  "Inl e \<in> set rs \<Longrightarrow> \<exists>e'. Promise_all rs = Inl e'"
proof -
  assume "Inl e \<in> set rs"
  then have "[e. Inl e \<leftarrow> rs] \<noteq> []"
    by (induction rs) (auto split: sum.splits)
  then show ?thesis
    by (cases "[e. Inl e \<leftarrow> rs]") (simp_all add: Promise_all_def)
qed

lemma Promise_all_Inr:
  "Promise_all (map Inr vs) = Inr vs"
proof -
  have l: "[e. Inl e \<leftarrow> map Inr vs] = ([] :: error list)"
    by (induction vs) simp_all
  have r: "[v. Inr v \<leftarrow> map (Inr :: 'a \<Rightarrow> error + 'a) vs] = vs"
    by (induction vs) simp_all
  show ?thesis
    unfolding Promise_all_def by (simp only: l r list.case)
qed

lemma Promise_all_Inr_comp:
  "Promise_all (map (Inr \<circ> f) xs) = Inr (map f xs)"
  using Promise_all_Inr[of "map f xs"] by simp

text \<open>The output paths that the loop of \<open>run\<close> plans are numbered from 1, in order.\<close>

lemma run_loop_paths_aux:
  assumes "run_loop (texts :: 'u jstring list) outputPrefix num i promises = Some res"
  shows "\<exists>more. res = promises @ more
     \<and> map snd more = map (\<lambda>k. getOutputPath outputPrefix (num + 1 + k)) [0..<length more]"
proof (rule run_loop.raw_induct[where P = "\<lambda>texts outputPrefix num i promises res.
          \<exists>more. res = promises @ more
     \<and> map snd more = map (\<lambda>k. getOutputPath outputPrefix (num + 1 + k)) [0..<length more]",
     OF _ assms])
  fix f :: "'u jstring list \<Rightarrow> string \<Rightarrow> nat \<Rightarrow> nat \<Rightarrow> ('u jstring \<times> string) list
              \<Rightarrow> ('u jstring \<times> string) list option"
    and texts outputPrefix num i promises res
  assume IH: "\<And>texts outputPrefix num i promises res.
      f texts outputPrefix num i promises = Some res \<Longrightarrow>
      \<exists>more. res = promises @ more
     \<and> map snd more = map (\<lambda>k. getOutputPath outputPrefix (num + 1 + k)) [0..<length more]"
    and eq: "(if i < length texts then
        f texts outputPrefix (num + 1) (snd (takeChunk texts i))
          (promises @ [(fst (takeChunk texts i), getOutputPath outputPrefix (num + 1))])
      else Some promises) = Some res"
  show "\<exists>more. res = promises @ more
     \<and> map snd more = map (\<lambda>k. getOutputPath outputPrefix (num + 1 + k)) [0..<length more]"
  proof (cases "i < length texts")
    case False
    with eq have "res = promises" by simp
    then show ?thesis by (intro exI[of _ "[]"]) simp
  next
    case True
    let ?job = "(fst (takeChunk texts i), getOutputPath outputPrefix (num + 1))"
    from eq True have "f texts outputPrefix (num + 1) (snd (takeChunk texts i))
          (promises @ [?job]) = Some res" by simp
    from IH[OF this] obtain more where more: "res = (promises @ [?job]) @ more"
      "map snd more = map (\<lambda>k. getOutputPath outputPrefix (num + 1 + 1 + k)) [0..<length more]"
      by blast
    have "map (\<lambda>k. getOutputPath outputPrefix (num + 1 + k)) [0..<length (?job # more)]
       = getOutputPath outputPrefix (num + 1)
           # map (\<lambda>k. getOutputPath outputPrefix (num + 1 + 1 + k)) [0..<length more]"
      by (simp add: upt_conv_Cons map_Suc_upt[symmetric] del: upt_Suc)
    with more show ?thesis
      by (intro exI[of _ "?job # more"]) simp
  qed
qed

lemma run_loop_paths:
  assumes "run_loop texts outputPrefix 0 0 [] = Some promises"
  shows "map snd promises = map (\<lambda>k. getOutputPath outputPrefix (k + 1)) [0..<length promises]"
  using run_loop_paths_aux[OF assms] by simp

lemma decimal_1: "decimal (Suc 0) = ''1''"
  by (simp add: decimal.simps[of "Suc 0"])

lemmas run_defs = TextToSpeechTask_run_def readOcrOuputJson_def Promise_all_def
  run_loop.simps takeChunk_def takeChunk_loop.simps getOutputPath_def maxLength_def decimal_1

text \<open>
  Claim C8: when the listing taken at the start of \<open>run\<close> covers the output path of
  every planned chunk (some listed name ends with it), \<open>ttsRequest\<close> is never called
  and \<open>run\<close> resolves with the planned output paths, \<open>output-001\<close>,
  \<open>output-002\<close>, ... in the order of the chunks. The plan is what the loop of \<open>run\<close>
  queues; by \<open>run_loop_fits\<close> there is one whenever every fragment fits.
\<close>

theorem run_all_outputs_exist:
  assumes "gcs_listFiles world outputPrefix = Inr existFiles"
    and "Promise_all (map (readOcrOuputJson world delimiter) gcsPaths) = Inr textsList"
    and "run_loop (concat textsList) outputPrefix 0 0 [] = Some promises"
    and "\<forall>job\<in>set promises. list_ex (\<lambda>f. suffix (snd job) f) existFiles"
  shows "TextToSpeechTask_run world delimiter gcsPaths outputPrefix
           = Some (Inr (map snd promises), replicate (length promises) 0)
     \<and> map snd promises
           = map (\<lambda>k. getOutputPath outputPrefix (k + 1)) [0..<length promises]"
proof -
  have job: "ttsJob world existFiles (fst job) (snd job) = (Inr (snd job), 0)"
    if "job \<in> set promises" for job
    using assms(4) that by (intro ttsJob_skip) simp
  have res: "map (\<lambda>(chunk, outputPath). fst (ttsJob world existFiles chunk outputPath)) promises
         = map Inr (map snd promises)"
    unfolding map_map by (rule map_cong[OF refl]) (simp add: case_prod_beta job)
  have "map (\<lambda>(chunk, outputPath). snd (ttsJob world existFiles chunk outputPath)) promises
         = map (\<lambda>job. 0) promises"
    by (rule map_cong[OF refl]) (simp add: case_prod_beta job)
  then have calls: "map (\<lambda>(chunk, outputPath). snd (ttsJob world existFiles chunk outputPath)) promises
         = replicate (length promises) 0"
    by (simp add: map_replicate_const)
  have "TextToSpeechTask_run world delimiter gcsPaths outputPrefix
           = Some (Inr (map snd promises), replicate (length promises) 0)"
    using assms(1-3) by (simp add: TextToSpeechTask_run_def res calls Promise_all_Inr_comp)
  with run_loop_paths[OF assms(3)] show ?thesis
    by (intro conjI)
qed

theorem run_all_outputs_exist_witness:
  "TextToSpeechTask_run
     \<lparr>gcs_listFiles = (\<lambda>p. Inr [''mp3/b/output-001.mp3'']),
      gcs_readOcrJson = (\<lambda>p. Inr
        \<lparr>root_responses = [\<lparr>response_fullTextAnnotation = Some \<lparr>annotation_pages =
          [\<lparr>page_blocks = [\<lparr>block_paragraphs = [\<lparr>paragraph_words =
            [\<lparr>word_boundingBox = \<lparr>poly_normalizedVertices =
                 [\<lparr>vertex_x = Fin (1 / 8), vertex_y = Fin (1 / 8)\<rparr>, \<lparr>vertex_x = Fin (1 / 4), vertex_y = Fin (1 / 4)\<rparr>]\<rparr>,
               word_symbols = [\<lparr>symbol_text = ''a''\<rparr>, \<lparr>symbol_text = ''b''\<rparr>]\<rparr>,
             \<lparr>word_boundingBox = \<lparr>poly_normalizedVertices =
                 [\<lparr>vertex_x = Fin (3 / 8), vertex_y = Fin (3 / 16)\<rparr>, \<lparr>vertex_x = Fin (1 / 2), vertex_y = Fin 1\<rparr>]\<rparr>,
               word_symbols = [\<lparr>symbol_text = ''c''\<rparr>]\<rparr>]\<rparr>]\<rparr>]\<rparr>]\<rparr>\<rparr>]\<rparr>),
      ttsRequest_fails = (\<lambda>t p n. Some (ProviderError ''unavailable''))\<rparr>
     ''.'' [''json/b/output-1-to-1.json''] ''mp3/b''
   = Some (Inr [''mp3/b/output-001.mp3''], [0])"
  using run_all_outputs_exist[of
     "\<lparr>gcs_listFiles = (\<lambda>p. Inr [''mp3/b/output-001.mp3'']),
      gcs_readOcrJson = (\<lambda>p. Inr
        \<lparr>root_responses = [\<lparr>response_fullTextAnnotation = Some \<lparr>annotation_pages =
          [\<lparr>page_blocks = [\<lparr>block_paragraphs = [\<lparr>paragraph_words =
            [\<lparr>word_boundingBox = \<lparr>poly_normalizedVertices =
                 [\<lparr>vertex_x = Fin (1 / 8), vertex_y = Fin (1 / 8)\<rparr>, \<lparr>vertex_x = Fin (1 / 4), vertex_y = Fin (1 / 4)\<rparr>]\<rparr>,
               word_symbols = [\<lparr>symbol_text = ''a''\<rparr>, \<lparr>symbol_text = ''b''\<rparr>]\<rparr>,
             \<lparr>word_boundingBox = \<lparr>poly_normalizedVertices =
                 [\<lparr>vertex_x = Fin (3 / 8), vertex_y = Fin (3 / 16)\<rparr>, \<lparr>vertex_x = Fin (1 / 2), vertex_y = Fin 1\<rparr>]\<rparr>,
               word_symbols = [\<lparr>symbol_text = ''c''\<rparr>]\<rparr>]\<rparr>]\<rparr>]\<rparr>]\<rparr>\<rparr>]\<rparr>),
      ttsRequest_fails = (\<lambda>t p n. Some (ProviderError ''unavailable''))\<rparr>"
     "''mp3/b''" "[''mp3/b/output-001.mp3'']" "''.''" "[''json/b/output-1-to-1.json'']"
     "[[''ab.'']]" "[(''ab.'', ''mp3/b/output-001.mp3'')]"]
  by (simp add: run_defs sentence_defs suffix_to_prefix ttsJob_def)

text \<open>
  Claim C6: a chunk job of \<open>run\<close> whose output path the listing does not cover calls
  \<open>ttsRequest\<close> at most five times; when the first five calls fail the job rejects
  with \<open>gave up after 5 retry\<close> after exactly five calls, and \<open>run\<close> rejects.
\<close>

theorem run_retry_bound:
  assumes "gcs_listFiles world outputPrefix = Inr existFiles"
    and "Promise_all (map (readOcrOuputJson world delimiter) gcsPaths) = Inr textsList"
    and "run_loop (concat textsList) outputPrefix 0 0 [] = Some promises"
    and "k < length promises" and "promises ! k = (chunk, outputPath)"
    and "\<not> list_ex (\<lambda>f. suffix outputPath f) existFiles"
  shows "\<exists>res calls. TextToSpeechTask_run world delimiter gcsPaths outputPrefix = Some (res, calls)
     \<and> length calls = length promises
     \<and> calls ! k = snd (ttsJob world existFiles chunk outputPath)
     \<and> calls ! k \<le> 5
     \<and> ((\<forall>count\<in>{1..5}. ttsRequest_fails world chunk outputPath count \<noteq> None) \<longrightarrow>
          ttsJob world existFiles chunk outputPath = (Inl (Reason ''gave up after 5 retry''), 5)
        \<and> calls ! k = 5 \<and> isl res)"
proof -
  let ?res = "Promise_all (map (\<lambda>(chunk, outputPath).
                 fst (ttsJob world existFiles chunk outputPath)) promises)"
  let ?calls = "map (\<lambda>(chunk, outputPath).
                 snd (ttsJob world existFiles chunk outputPath)) promises"
  have run: "TextToSpeechTask_run world delimiter gcsPaths outputPrefix = Some (?res, ?calls)"
    using assms(1-3) by (simp add: TextToSpeechTask_run_def)
  have k: "?calls ! k = snd (ttsJob world existFiles chunk outputPath)"
    using assms(4,5) by simp
  have "isl ?res"
    if "\<forall>count\<in>{1..5}. ttsRequest_fails world chunk outputPath count \<noteq> None"
  proof -
    from ttsJob_gave_up[OF assms(6) that]
    have "fst (ttsJob world existFiles chunk outputPath) = Inl (Reason ''gave up after 5 retry'')"
      by simp
    with assms(4,5)
    have val: "map (\<lambda>(chunk, outputPath). fst (ttsJob world existFiles chunk outputPath)) promises ! k
       = Inl (Reason ''gave up after 5 retry'')"
      by simp
    have "map (\<lambda>(chunk, outputPath). fst (ttsJob world existFiles chunk outputPath)) promises ! k
       \<in> set (map (\<lambda>(chunk, outputPath). fst (ttsJob world existFiles chunk outputPath)) promises)"
      using assms(4) by (intro nth_mem) simp
    then have "Inl (Reason ''gave up after 5 retry'')
       \<in> set (map (\<lambda>(chunk, outputPath). fst (ttsJob world existFiles chunk outputPath)) promises)"
      unfolding val .
    from Promise_all_Inl[OF this] show ?thesis by auto
  qed
  with run k ttsJob_calls[of world existFiles chunk outputPath]
    ttsJob_gave_up[OF assms(6)]
  show ?thesis
    by (intro exI[of _ ?res] exI[of _ ?calls]) auto
qed

theorem run_retry_bound_witness:
  "TextToSpeechTask_run
     \<lparr>gcs_listFiles = (\<lambda>p. Inr []),
      gcs_readOcrJson = (\<lambda>p. Inr
        \<lparr>root_responses = [\<lparr>response_fullTextAnnotation = Some \<lparr>annotation_pages =
          [\<lparr>page_blocks = [\<lparr>block_paragraphs = [\<lparr>paragraph_words =
            [\<lparr>word_boundingBox = \<lparr>poly_normalizedVertices =
                 [\<lparr>vertex_x = Fin (1 / 8), vertex_y = Fin (1 / 8)\<rparr>, \<lparr>vertex_x = Fin (1 / 4), vertex_y = Fin (1 / 4)\<rparr>]\<rparr>,
               word_symbols = [\<lparr>symbol_text = ''a''\<rparr>, \<lparr>symbol_text = ''b''\<rparr>]\<rparr>,
             \<lparr>word_boundingBox = \<lparr>poly_normalizedVertices =
                 [\<lparr>vertex_x = Fin (3 / 8), vertex_y = Fin (3 / 16)\<rparr>, \<lparr>vertex_x = Fin (1 / 2), vertex_y = Fin 1\<rparr>]\<rparr>,
               word_symbols = [\<lparr>symbol_text = ''c''\<rparr>]\<rparr>]\<rparr>]\<rparr>]\<rparr>]\<rparr>\<rparr>]\<rparr>),
      ttsRequest_fails = (\<lambda>t p n. Some (ProviderError ''unavailable''))\<rparr>
     ''.'' [''json/b/output-1-to-1.json''] ''mp3/b''
   = Some (Inl (Reason ''gave up after 5 retry''), [5])"
  using run_retry_bound[of
     "\<lparr>gcs_listFiles = (\<lambda>p. Inr []),
      gcs_readOcrJson = (\<lambda>p. Inr
        \<lparr>root_responses = [\<lparr>response_fullTextAnnotation = Some \<lparr>annotation_pages =
          [\<lparr>page_blocks = [\<lparr>block_paragraphs = [\<lparr>paragraph_words =
            [\<lparr>word_boundingBox = \<lparr>poly_normalizedVertices =
                 [\<lparr>vertex_x = Fin (1 / 8), vertex_y = Fin (1 / 8)\<rparr>, \<lparr>vertex_x = Fin (1 / 4), vertex_y = Fin (1 / 4)\<rparr>]\<rparr>,
               word_symbols = [\<lparr>symbol_text = ''a''\<rparr>, \<lparr>symbol_text = ''b''\<rparr>]\<rparr>,
             \<lparr>word_boundingBox = \<lparr>poly_normalizedVertices =
                 [\<lparr>vertex_x = Fin (3 / 8), vertex_y = Fin (3 / 16)\<rparr>, \<lparr>vertex_x = Fin (1 / 2), vertex_y = Fin 1\<rparr>]\<rparr>,
               word_symbols = [\<lparr>symbol_text = ''c''\<rparr>]\<rparr>]\<rparr>]\<rparr>]\<rparr>]\<rparr>\<rparr>]\<rparr>),
      ttsRequest_fails = (\<lambda>t p n. Some (ProviderError ''unavailable''))\<rparr>"
     "''mp3/b''" "[]" "''.''" "[''json/b/output-1-to-1.json'']"
     "[[''ab.'']]" "[(''ab.'', ''mp3/b/output-001.mp3'')]" 0 "''ab.''" "''mp3/b/output-001.mp3''"]
  by (simp add: run_defs sentence_defs suffix_to_prefix ttsJob_gave_up)

section \<open>ConcatMp3Task.run: groups, levels and calls\<close>

lemma getConcatFilePath_nonempty: "g \<noteq> [] \<Longrightarrow> \<exists>p. getConcatFilePath g = Inr p"
  by (cases g) simp_all

text \<open>
  The loop of \<open>run\<close> never fails: it cuts the files from \<open>i\<close> on into consecutive
  groups of 1 to \<open>maxCombine\<close> files, each with its file name.
\<close>

lemma concat_jobs_Inr:
  "\<exists>jobs. concat_jobs files i = Inr jobs
     \<and> concat (map fst jobs) = drop i files
     \<and> (\<forall>job\<in>set jobs. 1 \<le> length (fst job) \<and> length (fst job) \<le> maxCombine
            \<and> getConcatFilePath (fst job) = Inr (snd job))"
proof (induction files i rule: concat_jobs.induct)
  case (1 files i)
  show ?case
  proof (cases "i < length files")
    case False
    then show ?thesis
      by (subst concat_jobs.simps) simp
  next
    case True
    let ?group = "take maxCombine (drop i files)"
    from True have ne: "?group \<noteq> []"
      by (simp add: maxCombine_def)
    then obtain p where p: "getConcatFilePath ?group = Inr p"
      using getConcatFilePath_nonempty by blast
    from "1.IH"[OF True refl p] obtain jobs where jobs:
      "concat_jobs files (i + maxCombine) = Inr jobs"
      "concat (map fst jobs) = drop (i + maxCombine) files"
      "\<forall>job\<in>set jobs. 1 \<le> length (fst job) \<and> length (fst job) \<le> maxCombine
            \<and> getConcatFilePath (fst job) = Inr (snd job)"
      by blast
    have eq: "concat_jobs files i = Inr ((?group, p) # jobs)"
      using True p jobs(1) by (subst concat_jobs.simps) (simp add: Let_def)
    have "?group @ drop (i + maxCombine) files = drop i files"
      by (metis add.commute append_take_drop_id drop_drop)
    with jobs(2) have cc: "concat (map fst ((?group, p) # jobs)) = drop i files"
      by simp
    from ne have "1 \<le> length ?group"
      by (cases ?group) simp_all
    with jobs(3) p have "\<forall>job\<in>set ((?group, p) # jobs). 1 \<le> length (fst job)
            \<and> length (fst job) \<le> maxCombine \<and> getConcatFilePath (fst job) = Inr (snd job)"
      by simp
    with eq cc show ?thesis
      by blast
  qed
qed

lemma combine_all_succeed:
  assumes "\<forall>job\<in>set jobs. gcs_combine world (fst job) (snd job) = None"
  shows "Promise_all (map (combineJob world) jobs) = Inr (map snd jobs)"
proof -
  have "map (combineJob world) jobs = map (Inr \<circ> snd) jobs"
    using assms by (intro map_cong[OF refl]) (simp add: combineJob_def)
  then show ?thesis
    by (simp only: Promise_all_Inr_comp)
qed

text \<open>The three cases of \<open>run\<close>: no file, one file, and one level of groups.\<close>

lemma run_empty:
  "ConcatMp3Task_run world [] outputPath = (Inl (Reason ''files are empty''), [])"
  by (subst ConcatMp3Task_run.simps) simp

lemma run_single:
  "ConcatMp3Task_run world [f] outputPath =
     (case gcs_copy world f outputPath of None \<Rightarrow> Inr outputPath | Some e \<Rightarrow> Inl e,
      [Copy f outputPath])"
  by (subst ConcatMp3Task_run.simps) (simp split: option.splits)

lemma run_level:
  assumes "2 \<le> length files" and "concat_jobs files 0 = Inr jobs"
  shows "ConcatMp3Task_run world files outputPath =
     (case Promise_all (map (combineJob world) jobs) of
        Inl e \<Rightarrow> (Inl e, map combineCall jobs)
      | Inr newFiles \<Rightarrow>
          (fst (ConcatMp3Task_run world newFiles outputPath),
           map combineCall jobs @ snd (ConcatMp3Task_run world newFiles outputPath)))"
proof -
  from assms(1) have "files \<noteq> []" "length files \<noteq> Suc 0"
    by auto
  with assms(2) show ?thesis
    by (subst ConcatMp3Task_run.simps) (simp add: case_prod_beta split: sum.splits)
qed

lemma run_level_calls:
  assumes "2 \<le> length files" and "concat_jobs files 0 = Inr jobs"
  shows "take (length jobs) (snd (ConcatMp3Task_run world files outputPath)) = map combineCall jobs"
  unfolding run_level[OF assms] by (simp split: sum.splits)

lemma run_level_ok:
  assumes "2 \<le> length files" and "concat_jobs files 0 = Inr jobs"
    and "\<forall>job\<in>set jobs. gcs_combine world (fst job) (snd job) = None"
  shows "ConcatMp3Task_run world files outputPath =
     (fst (ConcatMp3Task_run world (map snd jobs) outputPath),
      map combineCall jobs @ snd (ConcatMp3Task_run world (map snd jobs) outputPath))"
  unfolding run_level[OF assms(1,2)] combine_all_succeed[OF assms(3)] by simp

lemma filter_combineCall:
  "filter is_Combine (map combineCall jobs) = map combineCall jobs"
  "filter is_Copy (map combineCall jobs) = []"
  by (induction jobs) (simp_all add: combineCall_def)

text \<open>
  When no storage call fails, \<open>run\<close> resolves with \<open>outputPath\<close>: its calls are
  combine calls, followed by one copy to \<open>outputPath\<close>.
\<close>

lemma run_succeeds:
  assumes combine: "\<And>g p. gcs_combine world g p = None"
    and copy: "\<And>a b. gcs_copy world a b = None"
  shows "files \<noteq> [] \<Longrightarrow>
    \<exists>calls src. ConcatMp3Task_run world files outputPath = (Inr outputPath, calls @ [Copy src outputPath])
       \<and> list_all is_Combine calls"
proof (induction "length files" arbitrary: files rule: less_induct)
  case less
  show ?case
  proof (cases "length files = 1")
    case True
    then obtain f where "files = [f]"
      by (cases files) simp_all
    then show ?thesis
      using run_single[of world f outputPath] copy by (intro exI[of _ "[]"] exI[of _ f]) simp
  next
    case False
    with less.prems have two: "2 \<le> length files"
      by (cases files) (auto simp: Suc_le_eq)
    from concat_jobs_Inr[of files 0] obtain jobs where jobs: "concat_jobs files 0 = Inr jobs"
      by blast
    from concat_jobs_length[OF jobs] have len: "length jobs = (length files + 31) div 32"
      by simp
    with ceil32_less[OF two] have smaller: "length (map snd jobs) < length files"
      by simp
    from len two have "0 < length jobs"
      by (simp add: div_greater_zero_iff)
    then have ne: "map snd jobs \<noteq> []"
      by auto
    from less.hyps[OF smaller ne] obtain calls src where next_level:
      "ConcatMp3Task_run world (map snd jobs) outputPath = (Inr outputPath, calls @ [Copy src outputPath])"
      "list_all is_Combine calls"
      by blast
    have "ConcatMp3Task_run world files outputPath =
        (Inr outputPath, (map combineCall jobs @ calls) @ [Copy src outputPath])"
      using run_level_ok[OF two jobs, of world outputPath] combine next_level(1) by simp
    moreover have "list_all is_Combine (map combineCall jobs @ calls)"
      using next_level(2) by (auto simp: list_all_iff combineCall_def)
    ultimately show ?thesis
      by blast
  qed
qed

text \<open>65 files: three groups, then one group of the three results, then the copy.\<close>

lemma run_65:
  assumes combine: "\<And>g p. gcs_combine world g p = None"
    and len: "length files = 65"
  shows "length (filter is_Combine (snd (ConcatMp3Task_run world files outputPath))) = 4
     \<and> length (filter is_Copy (snd (ConcatMp3Task_run world files outputPath))) = 1"
proof -
  from concat_jobs_Inr[of files 0] obtain jobs1 where jobs1: "concat_jobs files 0 = Inr jobs1"
    by blast
  from concat_jobs_length[OF jobs1] len have l1: "length jobs1 = 3"
    by simp
  let ?files2 = "map snd jobs1"
  from concat_jobs_Inr[of ?files2 0] obtain jobs2 where jobs2: "concat_jobs ?files2 0 = Inr jobs2"
    by blast
  from concat_jobs_length[OF jobs2] l1 have l2: "length jobs2 = 1"
    by simp
  then obtain f where f: "map snd jobs2 = [f]"
    by (cases jobs2) simp_all
  have r1: "ConcatMp3Task_run world files outputPath =
     (fst (ConcatMp3Task_run world ?files2 outputPath),
      map combineCall jobs1 @ snd (ConcatMp3Task_run world ?files2 outputPath))"
    using len combine by (intro run_level_ok[OF _ jobs1]) simp_all
  have r2: "ConcatMp3Task_run world ?files2 outputPath =
     (fst (ConcatMp3Task_run world [f] outputPath),
      map combineCall jobs2 @ snd (ConcatMp3Task_run world [f] outputPath))"
    using l1 combine f by (subst run_level_ok[OF _ jobs2]) simp_all
  show ?thesis
    unfolding r1 by (simp add: r2 run_single filter_combineCall l1 l2)
qed

lemmas concat_defs = ConcatMp3Task_run.simps concat_jobs.simps maxCombine_def dirname_def
  replace_dash3_def replace_last3_def is_digit_def is_lineTerminator_def combineJob_def
  combineCall_def Promise_all_def Let_def suffix_to_prefix

lemma concat_three:
  "ConcatMp3Task_run \<lparr>gcs_copy = (\<lambda>a b. None), gcs_combine = (\<lambda>g p. None)\<rparr>
     [''mp3/b/output-001.mp3'', ''mp3/b/output-002.mp3'', ''mp3/b/output-003.mp3'']
     ''out/b.mp3''
   = (Inr ''out/b.mp3'',
      [Combine [''mp3/b/output-001.mp3'', ''mp3/b/output-002.mp3'', ''mp3/b/output-003.mp3'']
         ''mp3/b/concat-001-003.mp3'',
       Copy ''mp3/b/concat-001-003.mp3'' ''out/b.mp3''])"
  by (simp add: concat_defs)

text \<open>
  Claim C7: with \<open>maxCombine = 32\<close>, \<open>ConcatMp3Task.run\<close> rejects an empty list with
  \<open>files are empty\<close>; for one file it makes exactly one copy to \<open>outputPath\<close> and no
  combine call; for \<open>N \<ge> 2\<close> files one level cuts the list into \<open>ceil(N/32)\<close>
  consecutive groups of 1 to 32 files, makes exactly one combine call for each group, and,
  when these succeed, goes on with the \<open>ceil(N/32)\<close> files they made; when no call
  fails the run ends with the copy of the one file left to \<open>outputPath\<close>; for
  \<open>N = 65\<close> there are exactly 4 combine calls (and one copy).
\<close>

theorem ConcatMp3Task_run_levels:
  "ConcatMp3Task_run world [] outputPath = (Inl (Reason ''files are empty''), [])
   \<and> snd (ConcatMp3Task_run world [f] outputPath) = [Copy f outputPath]
   \<and> (gcs_copy world f outputPath = None \<longrightarrow>
        fst (ConcatMp3Task_run world [f] outputPath) = Inr outputPath)
   \<and> (2 \<le> length files \<longrightarrow>
        (\<exists>jobs. concat_jobs files 0 = Inr jobs
           \<and> length jobs = (length files + 31) div 32
           \<and> concat (map fst jobs) = files
           \<and> (\<forall>job\<in>set jobs. 1 \<le> length (fst job) \<and> length (fst job) \<le> 32)
           \<and> take (length jobs) (snd (ConcatMp3Task_run world files outputPath))
                = map combineCall jobs
           \<and> ((\<forall>job\<in>set jobs. gcs_combine world (fst job) (snd job) = None) \<longrightarrow>
                ConcatMp3Task_run world files outputPath =
                  (fst (ConcatMp3Task_run world (map snd jobs) outputPath),
                   map combineCall jobs
                     @ snd (ConcatMp3Task_run world (map snd jobs) outputPath)))))
   \<and> (files \<noteq> [] \<and> (\<forall>g p. gcs_combine world g p = None) \<and> (\<forall>a b. gcs_copy world a b = None) \<longrightarrow>
        (\<exists>calls src. ConcatMp3Task_run world files outputPath
                         = (Inr outputPath, calls @ [Copy src outputPath])
           \<and> list_all is_Combine calls))
   \<and> (length files = 65 \<and> (\<forall>g p. gcs_combine world g p = None) \<longrightarrow>
        length (filter is_Combine (snd (ConcatMp3Task_run world files outputPath))) = 4
      \<and> length (filter is_Copy (snd (ConcatMp3Task_run world files outputPath))) = 1)"
proof (intro conjI impI)
  show "ConcatMp3Task_run world [] outputPath = (Inl (Reason ''files are empty''), [])"
    by (rule run_empty)
  show "snd (ConcatMp3Task_run world [f] outputPath) = [Copy f outputPath]"
    by (simp add: run_single)
  show "fst (ConcatMp3Task_run world [f] outputPath) = Inr outputPath"
    if "gcs_copy world f outputPath = None"
    using that by (simp add: run_single)
  show "\<exists>jobs. concat_jobs files 0 = Inr jobs
           \<and> length jobs = (length files + 31) div 32
           \<and> concat (map fst jobs) = files
           \<and> (\<forall>job\<in>set jobs. 1 \<le> length (fst job) \<and> length (fst job) \<le> 32)
           \<and> take (length jobs) (snd (ConcatMp3Task_run world files outputPath))
                = map combineCall jobs
           \<and> ((\<forall>job\<in>set jobs. gcs_combine world (fst job) (snd job) = None) \<longrightarrow>
                ConcatMp3Task_run world files outputPath =
                  (fst (ConcatMp3Task_run world (map snd jobs) outputPath),
                   map combineCall jobs
                     @ snd (ConcatMp3Task_run world (map snd jobs) outputPath)))"
    if two: "2 \<le> length files"
  proof -
    from concat_jobs_Inr[of files 0] obtain jobs where jobs: "concat_jobs files 0 = Inr jobs"
      "concat (map fst jobs) = drop 0 files"
      "\<forall>job\<in>set jobs. 1 \<le> length (fst job) \<and> length (fst job) \<le> maxCombine
            \<and> getConcatFilePath (fst job) = Inr (snd job)"
      by blast
    from concat_jobs_length[OF jobs(1)] have "length jobs = (length files + 31) div 32"
      by simp
    moreover from jobs(2) have "concat (map fst jobs) = files"
      by simp
    moreover from jobs(3) have "\<forall>job\<in>set jobs. 1 \<le> length (fst job) \<and> length (fst job) \<le> 32"
      by (simp add: maxCombine_def)
    moreover note run_level_calls[OF two jobs(1), of world outputPath]
    moreover have "ConcatMp3Task_run world files outputPath =
                  (fst (ConcatMp3Task_run world (map snd jobs) outputPath),
                   map combineCall jobs
                     @ snd (ConcatMp3Task_run world (map snd jobs) outputPath))"
      if "\<forall>job\<in>set jobs. gcs_combine world (fst job) (snd job) = None"
      using run_level_ok[OF two jobs(1) that] .
    ultimately show ?thesis
      using jobs(1) by blast
  qed
  show "\<exists>calls src. ConcatMp3Task_run world files outputPath
                         = (Inr outputPath, calls @ [Copy src outputPath])
           \<and> list_all is_Combine calls"
    if "files \<noteq> [] \<and> (\<forall>g p. gcs_combine world g p = None) \<and> (\<forall>a b. gcs_copy world a b = None)"
    using that by (intro run_succeeds) simp_all
  show "length (filter is_Combine (snd (ConcatMp3Task_run world files outputPath))) = 4"
    if "length files = 65 \<and> (\<forall>g p. gcs_combine world g p = None)"
    using that run_65[of world files outputPath] by simp
  show "length (filter is_Copy (snd (ConcatMp3Task_run world files outputPath))) = 1"
    if "length files = 65 \<and> (\<forall>g p. gcs_combine world g p = None)"
    using that run_65[of world files outputPath] by simp
qed

theorem ConcatMp3Task_run_levels_witness:
  "length (filter is_Combine (snd (ConcatMp3Task_run
       \<lparr>gcs_copy = (\<lambda>a b. None), gcs_combine = (\<lambda>g p. None)\<rparr>
       (map (getOutputPath ''mp3/b'') [1..<66]) ''out/b.mp3''))) = 4
   \<and> length (filter is_Copy (snd (ConcatMp3Task_run
       \<lparr>gcs_copy = (\<lambda>a b. None), gcs_combine = (\<lambda>g p. None)\<rparr>
       (map (getOutputPath ''mp3/b'') [1..<66]) ''out/b.mp3''))) = 1
   \<and> ConcatMp3Task_run \<lparr>gcs_copy = (\<lambda>a b. None), gcs_combine = (\<lambda>g p. None)\<rparr>
       [''mp3/b/output-001.mp3''] ''out/b.mp3''
       = (Inr ''out/b.mp3'', [Copy ''mp3/b/output-001.mp3'' ''out/b.mp3''])
   \<and> ConcatMp3Task_run \<lparr>gcs_copy = (\<lambda>a b. None), gcs_combine = (\<lambda>g p. None)\<rparr>
     [''mp3/b/output-001.mp3'', ''mp3/b/output-002.mp3'', ''mp3/b/output-003.mp3'']
     ''out/b.mp3''
   = (Inr ''out/b.mp3'',
      [Combine [''mp3/b/output-001.mp3'', ''mp3/b/output-002.mp3'', ''mp3/b/output-003.mp3'']
         ''mp3/b/concat-001-003.mp3'',
       Copy ''mp3/b/concat-001-003.mp3'' ''out/b.mp3''])"
  using ConcatMp3Task_run_levels[of "\<lparr>gcs_copy = (\<lambda>a b. None), gcs_combine = (\<lambda>g p. None)\<rparr>"
      "''out/b.mp3''" "''mp3/b/output-001.mp3''" "map (getOutputPath ''mp3/b'') [1..<66]"]
  by (simp add: concat_three prod_eq_iff)

end
